theory Spec2Isabelle
  imports Main "HOL-Library.AList" "HOL-Library.Sublist"
begin

section \<open>JavaScript values as the proxy sees them\<close>

text \<open>
  Every value the proxy handles comes out of \<^verbatim>\<open>JSON.parse\<close>: null, a boolean, a
  number, a string, an array or a plain object. An object is kept as the list of its own
  properties in property order (keys are distinct in an object that JavaScript built);
  reading a property takes the first entry of that name, \<^verbatim>\<open>delete\<close> removes the
  entry and an assignment replaces the value in place or appends a new entry, which is
  what \<open>map_of\<close>, \<open>AList.delete\<close> and \<open>AList.update\<close> do.
  Numbers are integers here: the code only tests a number for being zero or turns it
  into a string.
\<close>

datatype json =
    JNull
  | JBool bool
  | JNum int
  | JStr string
  | JArr "json list"
  | JObj "(string \<times> json) list"

type_synonym props = "(string \<times> json) list"

text \<open>JavaScript truthiness: \<^verbatim>\<open>null\<close>, \<^verbatim>\<open>false\<close>, \<^verbatim>\<open>0\<close> and \<^verbatim>\<open>""\<close> are falsy.\<close>

fun truthy :: "json \<Rightarrow> bool" where
  "truthy JNull = False"
| "truthy (JBool b) = b"
| "truthy (JNum n) = (n \<noteq> 0)"
| "truthy (JStr s) = (s \<noteq> [])"
| "truthy (JArr xs) = True"
| "truthy (JObj kvs) = True"

text \<open>\<^verbatim>\<open>typeof v === 'object'\<close> for a value that is already known not to be null.\<close>

fun is_object :: "json \<Rightarrow> bool" where
  "is_object (JArr xs) = True"
| "is_object (JObj kvs) = True"
| "is_object v = False"

fun is_array :: "json \<Rightarrow> bool" where
  "is_array (JArr xs) = True"
| "is_array v = False"

text \<open>The decimal spelling of an array index, as \<^verbatim>\<open>Object.entries\<close> names it.\<close>

definition digit_char :: "nat \<Rightarrow> char" where
  "digit_char d = char_of (48 + d)"

fun nat_to_dec :: "nat \<Rightarrow> string" where
  "nat_to_dec n = (if n < 10 then [digit_char n] else nat_to_dec (n div 10) @ [digit_char (n mod 10)])"

declare nat_to_dec.simps [simp del]

text \<open>
  \<^verbatim>\<open>Object.entries(v)\<close> for a truthy value of type object: the own properties of an
  object, the index/element pairs of an array.
\<close>

fun entries :: "json \<Rightarrow> props" where
  "entries (JObj kvs) = kvs"
| "entries (JArr xs) = zip (map nat_to_dec [0..<length xs]) xs"
| "entries v = []"

section \<open>The schema sanitizer\<close>

text \<open>
  \<^verbatim>\<open>sanitizeSchema\<close> (lines 93 to 182 of the per-conversation proxy). The keys removed
  unconditionally, in the order of the \<^verbatim>\<open>delete\<close> statements.
\<close>

definition unsupported_keys :: "string list" where
  "unsupported_keys =
    [''$ref'', ''$schema'', ''$id'', ''definitions'', ''$defs'',
     ''anyOf'', ''oneOf'', ''allOf'', ''not'',
     ''exclusiveMaximum'', ''exclusiveMinimum'', ''const'', ''contentEncoding'', ''contentMediaType'',
     ''prefixItems'', ''contains'', ''minContains'', ''maxContains'',
     ''propertyNames'', ''patternProperties'', ''dependentSchemas'', ''dependentRequired'']"

definition drop_unsupported :: "props \<Rightarrow> props" where
  "drop_unsupported clean = fold AList.delete unsupported_keys clean"

text \<open>
  \<^verbatim>\<open>if (clean.format && !['enum', 'date-time'].includes(clean.format)) delete clean.format\<close>
\<close>

definition drop_format :: "props \<Rightarrow> props" where
  "drop_format clean =
    (case map_of clean ''format'' of
       Some f \<Rightarrow>
         if truthy f \<and> f \<noteq> JStr ''enum'' \<and> f \<noteq> JStr ''date-time''
         then AList.delete ''format'' clean else clean
     | None \<Rightarrow> clean)"

text \<open>
  The type array: \<^verbatim>\<open>hasNull = clean.type.includes('null')\<close>,
  \<^verbatim>\<open>nonNullType = clean.type.find(t => t !== 'null')\<close>; a truthy \<^verbatim>\<open>nonNullType\<close>
  becomes the type (and \<^verbatim>\<open>nullable = true\<close> when \<^verbatim>\<open>hasNull\<close>), anything else makes the
  type \<^verbatim>\<open>'string'\<close>.
\<close>

definition collapse_type :: "props \<Rightarrow> props" where
  "collapse_type clean =
    (case map_of clean ''type'' of
       Some (JArr ts) \<Rightarrow>
         (let hasNull = (JStr ''null'' \<in> set ts);
              nonNullType = find (\<lambda>t. t \<noteq> JStr ''null'') ts
          in case nonNullType of
               Some t \<Rightarrow>
                 if truthy t
                 then (let clean1 = AList.update ''type'' t clean
                       in if hasNull then AList.update ''nullable'' (JBool True) clean1 else clean1)
                 else AList.update ''type'' (JStr ''string'') clean
             | None \<Rightarrow> AList.update ''type'' (JStr ''string'') clean)
     | _ \<Rightarrow> clean)"

text \<open>\<^verbatim>\<open>if (clean.additionalProperties === false) delete clean.additionalProperties\<close>\<close>

definition drop_closed :: "props \<Rightarrow> props" where
  "drop_closed clean =
    (if map_of clean ''additionalProperties'' = Some (JBool False)
     then AList.delete ''additionalProperties'' clean else clean)"

text \<open>\<^verbatim>\<open>if (Array.isArray(clean.required) && clean.required.length === 0) delete clean.required\<close>\<close>

definition drop_empty_required :: "props \<Rightarrow> props" where
  "drop_empty_required clean =
    (if map_of clean ''required'' = Some (JArr [])
     then AList.delete ''required'' clean else clean)"

text \<open>
  \<^verbatim>\<open>if (clean.type && !['number', 'integer'].includes(clean.type))\<close> deletes
  \<^verbatim>\<open>minimum\<close>, \<^verbatim>\<open>maximum\<close> and \<^verbatim>\<open>multipleOf\<close>.
\<close>

definition drop_bounds :: "props \<Rightarrow> props" where
  "drop_bounds clean =
    (case map_of clean ''type'' of
       Some t \<Rightarrow>
         if truthy t \<and> t \<noteq> JStr ''number'' \<and> t \<noteq> JStr ''integer''
         then AList.delete ''multipleOf'' (AList.delete ''maximum'' (AList.delete ''minimum'' clean))
         else clean
     | None \<Rightarrow> clean)"

text \<open>
  The three recursive rewrites, with the recursive call as a parameter.
  \<^verbatim>\<open>props[key] = sanitizeSchema(value)\<close> is an assignment to a fresh object literal: for
  the key \<^verbatim>\<open>__proto__\<close> it runs the inherited setter and creates no own property, so that
  entry does not reach \<^verbatim>\<open>props\<close>.
\<close>

definition rebuild_props :: "(json \<Rightarrow> json) \<Rightarrow> json \<Rightarrow> json" where
  "rebuild_props rec p =
     JObj (map (\<lambda>(key, v). (key, rec v)) (filter (\<lambda>(key, v). key \<noteq> ''__proto__'') (entries p)))"

definition recurse_properties :: "(json \<Rightarrow> json) \<Rightarrow> props \<Rightarrow> props" where
  "recurse_properties rec clean =
    (case map_of clean ''properties'' of
       Some p \<Rightarrow>
         if truthy p \<and> is_object p
         then AList.update ''properties'' (rebuild_props rec p) clean else clean
     | None \<Rightarrow> clean)"

definition recurse_items :: "(json \<Rightarrow> json) \<Rightarrow> props \<Rightarrow> props" where
  "recurse_items rec clean =
    (case map_of clean ''items'' of
       Some i \<Rightarrow> if truthy i then AList.update ''items'' (rec i) clean else clean
     | None \<Rightarrow> clean)"

definition recurse_additional :: "(json \<Rightarrow> json) \<Rightarrow> props \<Rightarrow> props" where
  "recurse_additional rec clean =
    (case map_of clean ''additionalProperties'' of
       Some a \<Rightarrow>
         if truthy a \<and> is_object a
         then AList.update ''additionalProperties'' (rec a) clean else clean
     | None \<Rightarrow> clean)"

text \<open>The body of \<^verbatim>\<open>sanitizeSchema\<close> on the own properties of an object, statement by statement.\<close>

definition sanitize_object :: "(json \<Rightarrow> json) \<Rightarrow> props \<Rightarrow> props" where
  "sanitize_object rec schema =
    (let clean = schema;
         clean = drop_unsupported clean;
         clean = drop_format clean;
         clean = collapse_type clean;
         clean = drop_closed clean;
         clean = drop_empty_required clean;
         clean = drop_bounds clean;
         clean = recurse_properties rec clean;
         clean = recurse_items rec clean;
         clean = recurse_additional rec clean
     in clean)"

text \<open>The statements before the recursive rewrites, as one function.\<close>

definition prepare :: "props \<Rightarrow> props" where
  "prepare schema =
     drop_bounds (drop_empty_required (drop_closed (collapse_type (drop_format (drop_unsupported schema)))))"

lemma sanitize_object_prepare:
  "sanitize_object rec schema =
     recurse_additional rec (recurse_items rec (recurse_properties rec (prepare schema)))"
  by (simp add: sanitize_object_def prepare_def)

subsection \<open>Where the values of the cleaned object come from\<close>

lemma fold_delete_filter: "fold AList.delete ks c = filter (\<lambda>p. fst p \<notin> set ks) c"
proof (induction ks arbitrary: c)
  case Nil then show ?case by simp
next
  case (Cons k ks)
  have "filter (\<lambda>p. fst p \<notin> set ks) (AList.delete k c) = filter (\<lambda>p. fst p \<notin> set (k # ks)) c"
    by (induction c) (auto simp: AList.delete_eq)
  then show ?case by (simp add: Cons)
qed

lemma set_update_subset: "set (AList.update k v c) \<subseteq> insert (k, v) (set c)"
  by (induction c) auto

lemma set_delete_subset: "set (AList.delete k c) \<subseteq> set c"
  by (auto simp: AList.delete_eq)

lemma in_update_other: "(k', v') \<in> set (AList.update k v c) \<Longrightarrow> k' \<noteq> k \<Longrightarrow> (k', v') \<in> set c"
  using set_update_subset [of k v c] by auto

lemma in_delete: "(k', v') \<in> set (AList.delete k c) \<Longrightarrow> (k', v') \<in> set c"
  using set_delete_subset [of k c] by auto

lemma drop_unsupported_origin: "p \<in> set (drop_unsupported c) \<Longrightarrow> p \<in> set c"
  by (simp add: drop_unsupported_def fold_delete_filter)

lemma drop_format_origin: "p \<in> set (drop_format c) \<Longrightarrow> p \<in> set c"
  by (cases p) (auto simp: drop_format_def split: option.splits if_splits dest: in_delete)

lemma collapse_type_origin:
  "(k, v) \<in> set (collapse_type c) \<Longrightarrow> k \<noteq> ''type'' \<Longrightarrow> k \<noteq> ''nullable'' \<Longrightarrow> (k, v) \<in> set c"
  by (auto simp: collapse_type_def Let_def split: option.splits json.splits if_splits
        dest!: in_update_other)

lemma drop_closed_origin: "p \<in> set (drop_closed c) \<Longrightarrow> p \<in> set c"
  by (cases p) (auto simp: drop_closed_def split: if_splits dest: in_delete)

lemma drop_empty_required_origin: "p \<in> set (drop_empty_required c) \<Longrightarrow> p \<in> set c"
  by (cases p) (auto simp: drop_empty_required_def split: if_splits dest: in_delete)

lemma drop_bounds_origin: "p \<in> set (drop_bounds c) \<Longrightarrow> p \<in> set c"
  by (cases p) (auto simp: drop_bounds_def split: option.splits if_splits dest: in_delete)

lemma prepare_origin:
  "(k, v) \<in> set (prepare c) \<Longrightarrow> k \<noteq> ''type'' \<Longrightarrow> k \<noteq> ''nullable'' \<Longrightarrow> (k, v) \<in> set c"
  unfolding prepare_def
  by (blast dest: drop_bounds_origin drop_empty_required_origin drop_closed_origin
        collapse_type_origin drop_format_origin drop_unsupported_origin)

lemma size_value_less: "(k, v) \<in> set kvs \<Longrightarrow> size v < size (JObj kvs)"
  by (induction kvs) auto

lemma size_element_less: "v \<in> set xs \<Longrightarrow> size v < size (JArr xs)"
  by (induction xs) auto

lemma size_entries_less: "size v < size p" if "(k, v) \<in> set (entries p)"
proof (cases p)
  case (JArr xs)
  with that have "v \<in> set xs" by (auto dest: set_zip_rightD)
  then show ?thesis using JArr by (simp add: size_element_less del: json.size)
qed (use that in \<open>auto dest: size_value_less\<close>)

lemma rebuild_props_cong:
  "(\<And>k v. (k, v) \<in> set (entries p) \<Longrightarrow> f v = g v) \<Longrightarrow> rebuild_props f p = rebuild_props g p"
  by (auto simp: rebuild_props_def)

lemma recurse_properties_cong:
  "(\<And>p k v. map_of c ''properties'' = Some p \<Longrightarrow> (k, v) \<in> set (entries p) \<Longrightarrow> f v = g v)
     \<Longrightarrow> recurse_properties f c = recurse_properties g c"
  by (auto simp: recurse_properties_def split: option.splits intro!: arg_cong2[where f="\<lambda>a b. AList.update ''properties'' a b"] rebuild_props_cong)

lemma recurse_items_cong:
  "(\<And>i. map_of c ''items'' = Some i \<Longrightarrow> f i = g i) \<Longrightarrow> recurse_items f c = recurse_items g c"
  by (auto simp: recurse_items_def split: option.splits)

lemma recurse_additional_cong:
  "(\<And>a. map_of c ''additionalProperties'' = Some a \<Longrightarrow> f a = g a)
     \<Longrightarrow> recurse_additional f c = recurse_additional g c"
  by (auto simp: recurse_additional_def split: option.splits)

lemma recurse_properties_lookup:
  "k \<noteq> ''properties'' \<Longrightarrow> map_of (recurse_properties f c) k = map_of c k"
  by (auto simp: recurse_properties_def update_conv' split: option.splits)

lemma recurse_items_lookup:
  "k \<noteq> ''items'' \<Longrightarrow> map_of (recurse_items f c) k = map_of c k"
  by (auto simp: recurse_items_def update_conv' split: option.splits)

lemma recurse_additional_lookup:
  "k \<noteq> ''additionalProperties'' \<Longrightarrow> map_of (recurse_additional f c) k = map_of c k"
  by (auto simp: recurse_additional_def update_conv' split: option.splits)

lemma sanitize_object_cong [fundef_cong]:
  assumes "schema = schema'"
    and "\<And>v. size v < size (JObj schema') \<Longrightarrow> f v = g v"
  shows "sanitize_object f schema = sanitize_object g schema'"
proof -
  let ?c = "prepare schema'"
  have child: "f v = g v" if "map_of ?c k = Some v" "k \<noteq> ''type''" "k \<noteq> ''nullable''" for k v
    using that assms(2) by (meson map_of_SomeD prepare_origin size_value_less)
  have grand: "f v = g v"
    if "map_of ?c k = Some p" "k \<noteq> ''type''" "k \<noteq> ''nullable''" "(k', v) \<in> set (entries p)" for k p k' v
  proof -
    have "size p < size (JObj schema')"
      using that by (meson map_of_SomeD prepare_origin size_value_less)
    moreover have "size v < size p" using that(4) by (rule size_entries_less)
    ultimately show ?thesis using assms(2) by simp
  qed
  have 1: "recurse_properties f ?c = recurse_properties g ?c"
    by (rule recurse_properties_cong) (rule grand, auto)
  have 2: "recurse_items f (recurse_properties g ?c) = recurse_items g (recurse_properties g ?c)"
    by (rule recurse_items_cong) (rule child, auto simp: recurse_properties_lookup)
  have 3: "recurse_additional f (recurse_items g (recurse_properties g ?c))
         = recurse_additional g (recurse_items g (recurse_properties g ?c))"
    by (rule recurse_additional_cong)
       (rule child, auto simp: recurse_properties_lookup recurse_items_lookup)
  show ?thesis
    unfolding assms(1) sanitize_object_prepare 1 2 3 ..
qed

text \<open>
  \<^verbatim>\<open>if (!schema || typeof schema !== 'object') return schema\<close>: scalars and null come
  back as they are. An array is copied (\<^verbatim>\<open>[...schema]\<close>); none of the keys the body
  reads or deletes is an own property of an array, so the copy is returned unchanged.
\<close>

fun sanitizeSchema :: "json \<Rightarrow> json" where
  "sanitizeSchema (JObj schema) = JObj (sanitize_object sanitizeSchema schema)"
| "sanitizeSchema schema = schema"


text \<open>Reading a property of a value that is not null: only a plain object has the names used here.\<close>

fun get_prop :: "json \<Rightarrow> string \<Rightarrow> json option" where
  "get_prop (JObj kvs) k = map_of kvs k"
| "get_prop v k = None"


subsection \<open>Reading the cleaned object key by key\<close>

lemma drop_unsupported_lookup:
  "map_of (drop_unsupported c) k = (if k \<in> set unsupported_keys then None else map_of c k)"
  unfolding drop_unsupported_def fold_delete_filter
  by (induction c) auto

lemma drop_format_lookup: "k \<noteq> ''format'' \<Longrightarrow> map_of (drop_format c) k = map_of c k"
  by (simp add: drop_format_def split: option.splits)

lemma collapse_type_lookup:
  "k \<noteq> ''type'' \<Longrightarrow> k \<noteq> ''nullable'' \<Longrightarrow> map_of (collapse_type c) k = map_of c k"
  by (simp add: collapse_type_def Let_def update_conv' split: option.splits json.splits)

text \<open>What the type-array statement leaves as the type, and when it sets \<open>nullable\<close>.\<close>

definition collapsed :: "json list \<Rightarrow> json" where
  "collapsed ts = (case find (\<lambda>t. t \<noteq> JStr ''null'') ts of
                     Some t \<Rightarrow> if truthy t then t else JStr ''string''
                   | None \<Rightarrow> JStr ''string'')"

definition marks_nullable :: "json list \<Rightarrow> bool" where
  "marks_nullable ts \<longleftrightarrow> JStr ''null'' \<in> set ts \<and>
      (case find (\<lambda>t. t \<noteq> JStr ''null'') ts of Some t \<Rightarrow> truthy t | None \<Rightarrow> False)"

lemma collapse_type_type:
  "map_of (collapse_type c) ''type'' =
     (case map_of c ''type'' of Some (JArr ts) \<Rightarrow> Some (collapsed ts) | other \<Rightarrow> other)"
  by (simp add: collapse_type_def collapsed_def Let_def update_conv' split: option.splits json.splits)

lemma collapse_type_nullable:
  "map_of (collapse_type c) ''nullable'' =
     (case map_of c ''type'' of
        Some (JArr ts) \<Rightarrow> if marks_nullable ts then Some (JBool True) else map_of c ''nullable''
      | _ \<Rightarrow> map_of c ''nullable'')"
  by (simp add: collapse_type_def marks_nullable_def Let_def update_conv' split: option.splits json.splits)

lemma drop_closed_lookup:
  "k \<noteq> ''additionalProperties'' \<Longrightarrow> map_of (drop_closed c) k = map_of c k"
  by (simp add: drop_closed_def)

lemma drop_empty_required_lookup:
  "k \<noteq> ''required'' \<Longrightarrow> map_of (drop_empty_required c) k = map_of c k"
  by (simp add: drop_empty_required_def)

lemma drop_bounds_lookup:
  "k \<noteq> ''minimum'' \<Longrightarrow> k \<noteq> ''maximum'' \<Longrightarrow> k \<noteq> ''multipleOf'' \<Longrightarrow>
     map_of (drop_bounds c) k = map_of c k"
  by (simp add: drop_bounds_def split: option.splits)

lemma drop_bounds_bound:
  "k = ''minimum'' \<or> k = ''maximum'' \<or> k = ''multipleOf'' \<Longrightarrow>
     map_of (drop_bounds c) k =
       (case map_of c ''type'' of
          Some t \<Rightarrow> if truthy t \<and> t \<noteq> JStr ''number'' \<and> t \<noteq> JStr ''integer'' then None else map_of c k
        | None \<Rightarrow> map_of c k)"
  by (auto simp: drop_bounds_def delete_conv' split: option.splits)

lemma prepare_type:
  "map_of (prepare c) ''type'' =
     (case map_of c ''type'' of Some (JArr ts) \<Rightarrow> Some (collapsed ts) | other \<Rightarrow> other)"
  by (simp add: prepare_def drop_bounds_lookup drop_empty_required_lookup drop_closed_lookup
        collapse_type_type drop_format_lookup drop_unsupported_lookup unsupported_keys_def)

lemma prepare_nullable:
  "map_of (prepare c) ''nullable'' =
     (case map_of c ''type'' of
        Some (JArr ts) \<Rightarrow> if marks_nullable ts then Some (JBool True) else map_of c ''nullable''
      | _ \<Rightarrow> map_of c ''nullable'')"
  by (simp add: prepare_def drop_bounds_lookup drop_empty_required_lookup drop_closed_lookup
        collapse_type_nullable drop_format_lookup drop_unsupported_lookup unsupported_keys_def
        split: option.splits json.splits)

lemma prepare_bound:
  assumes "k = ''minimum'' \<or> k = ''maximum'' \<or> k = ''multipleOf''"
  shows "map_of (prepare c) k =
       (case map_of (prepare c) ''type'' of
          Some t \<Rightarrow> if truthy t \<and> t \<noteq> JStr ''number'' \<and> t \<noteq> JStr ''integer'' then None else map_of c k
        | None \<Rightarrow> map_of c k)"
proof -
  let ?d = "drop_empty_required (drop_closed (collapse_type (drop_format (drop_unsupported c))))"
  have ty: "map_of (prepare c) ''type'' = map_of ?d ''type''"
    by (simp add: prepare_def drop_bounds_lookup)
  have "map_of ?d k = map_of c k"
    using assms
    by (auto simp add: drop_empty_required_lookup drop_closed_lookup
        collapse_type_lookup drop_format_lookup drop_unsupported_lookup unsupported_keys_def)
  then show ?thesis
    unfolding ty unfolding prepare_def by (simp add: drop_bounds_bound [OF assms] split: option.splits)
qed

lemma sanitize_object_lookup:
  "k \<noteq> ''properties'' \<Longrightarrow> k \<noteq> ''items'' \<Longrightarrow> k \<noteq> ''additionalProperties'' \<Longrightarrow>
     map_of (sanitize_object rec c) k = map_of (prepare c) k"
  by (simp add: sanitize_object_prepare recurse_additional_lookup recurse_items_lookup
        recurse_properties_lookup)


subsection \<open>Type arrays\<close>

text \<open>
  Claim C7, as the code has it. For an object whose \<^verbatim>\<open>type\<close> is an array of strings the
  sanitized \<^verbatim>\<open>type\<close> is a string. When the first entry other than \<^verbatim>\<open>"null"\<close> exists and
  is not the empty string, it becomes the type, and \<^verbatim>\<open>nullable\<close> is set to true if the
  array contains \<^verbatim>\<open>"null"\<close> (otherwise \<^verbatim>\<open>nullable\<close> stays as it was). When there is no
  such entry, or it is the empty string, the type is \<^verbatim>\<open>"string"\<close> and \<^verbatim>\<open>nullable\<close> stays
  as it was. The two examples of the specification hold literally.
\<close>

theorem C7_type_array_collapse:
  assumes "map_of schema ''type'' = Some (JArr ts)"
    and "\<forall>t \<in> set ts. \<exists>s. t = JStr s"
  shows "(\<exists>s. get_prop (sanitizeSchema (JObj schema)) ''type'' = Some (JStr s))
       \<and> (\<forall>s. find (\<lambda>t. t \<noteq> JStr ''null'') ts = Some (JStr s) \<and> s \<noteq> [] \<longrightarrow>
              get_prop (sanitizeSchema (JObj schema)) ''type'' = Some (JStr s)
            \<and> get_prop (sanitizeSchema (JObj schema)) ''nullable'' =
                (if JStr ''null'' \<in> set ts then Some (JBool True) else map_of schema ''nullable''))
       \<and> (find (\<lambda>t. t \<noteq> JStr ''null'') ts = None \<or> find (\<lambda>t. t \<noteq> JStr ''null'') ts = Some (JStr [])
            \<longrightarrow> get_prop (sanitizeSchema (JObj schema)) ''type'' = Some (JStr ''string'')
              \<and> get_prop (sanitizeSchema (JObj schema)) ''nullable'' = map_of schema ''nullable'')
       \<and> sanitizeSchema (JObj [(''type'', JArr [JStr ''string'', JStr ''null''])])
            = JObj [(''type'', JStr ''string''), (''nullable'', JBool True)]
       \<and> sanitizeSchema (JObj [(''type'', JArr [JStr ''null''])]) = JObj [(''type'', JStr ''string'')]"
proof -
  let ?r = "sanitizeSchema (JObj schema)"
  have ty: "get_prop ?r ''type'' = Some (collapsed ts)"
    using assms(1) by (simp add: sanitize_object_lookup prepare_type)
  have nu: "get_prop ?r ''nullable'' = (if marks_nullable ts then Some (JBool True) else map_of schema ''nullable'')"
    using assms(1) by (simp add: sanitize_object_lookup prepare_nullable)
  have scalar: "\<exists>s. collapsed ts = JStr s"
  proof (cases "find (\<lambda>t. t \<noteq> JStr ''null'') ts")
    case None
    then show ?thesis by (simp add: collapsed_def)
  next
    case (Some t)
    then have "t \<in> set ts" by (auto simp: find_Some_iff)
    with assms(2) obtain s where "t = JStr s" by blast
    with Some show ?thesis by (simp add: collapsed_def)
  qed
  have e1: "sanitizeSchema (JObj [(''type'', JArr [JStr ''string'', JStr ''null''])])
            = JObj [(''type'', JStr ''string''), (''nullable'', JBool True)]"
    by code_simp
  have e2: "sanitizeSchema (JObj [(''type'', JArr [JStr ''null''])]) = JObj [(''type'', JStr ''string'')]"
    by code_simp
  show ?thesis
    unfolding ty nu using scalar e1 e2
    by (auto simp: collapsed_def marks_nullable_def)
qed

text \<open>The theorem at \<^verbatim>\<open>{type: ["null", "integer"], minimum: 0}\<close>.\<close>

theorem C7_type_array_collapse_witness:
  "get_prop (sanitizeSchema (JObj [(''type'', JArr [JStr ''null'', JStr ''integer'']), (''minimum'', JNum 0)])) ''type''
      = Some (JStr ''integer'')
   \<and> get_prop (sanitizeSchema (JObj [(''type'', JArr [JStr ''null'', JStr ''integer'']), (''minimum'', JNum 0)])) ''nullable''
      = Some (JBool True)"
  using C7_type_array_collapse [of "[(''type'', JArr [JStr ''null'', JStr ''integer'']), (''minimum'', JNum 0)]"
      "[JStr ''null'', JStr ''integer'']"]
  by simp

text \<open>
  The claim as written makes the first entry other than \<^verbatim>\<open>"null"\<close> the type and sets
  \<^verbatim>\<open>nullable\<close> whenever the array contains \<^verbatim>\<open>"null"\<close>. The code does both only for a truthy
  entry: for \<^verbatim>\<open>{type: ["", "null"]}\<close> the type becomes \<^verbatim>\<open>"string"\<close> and \<^verbatim>\<open>nullable\<close> is not
  set, and for \<^verbatim>\<open>{type: ["null"]}\<close> the fallback branch does not set \<^verbatim>\<open>nullable\<close> either.
\<close>

theorem C7_nullable_counterexample:
  "sanitizeSchema (JObj [(''type'', JArr [JStr [], JStr ''null''])]) = JObj [(''type'', JStr ''string'')]
 \<and> get_prop (sanitizeSchema (JObj [(''type'', JArr [JStr [], JStr ''null''])])) ''nullable'' \<noteq> Some (JBool True)
 \<and> get_prop (sanitizeSchema (JObj [(''type'', JArr [JStr ''null''])])) ''nullable'' \<noteq> Some (JBool True)"
  by code_simp

subsection \<open>Numeric bounds\<close>

text \<open>
  Claim C8, as the code has it. Each of \<^verbatim>\<open>minimum\<close>, \<^verbatim>\<open>maximum\<close> and \<^verbatim>\<open>multipleOf\<close> is
  removed when the type after collapsing is present, truthy and neither \<^verbatim>\<open>"number"\<close> nor
  \<^verbatim>\<open>"integer"\<close>; in every other case, also when the object carries no type, the key keeps
  the value it had.
\<close>

theorem C8_bounds_kept_or_dropped:
  assumes "k = ''minimum'' \<or> k = ''maximum'' \<or> k = ''multipleOf''"
  shows "get_prop (sanitizeSchema (JObj schema)) k =
      (case get_prop (sanitizeSchema (JObj schema)) ''type'' of
         Some t \<Rightarrow> if truthy t \<and> t \<noteq> JStr ''number'' \<and> t \<noteq> JStr ''integer'' then None
                   else map_of schema k
       | None \<Rightarrow> map_of schema k)"
proof -
  have "get_prop (sanitizeSchema (JObj schema)) k = map_of (prepare schema) k"
    using assms by (auto simp: sanitize_object_lookup)
  moreover have "get_prop (sanitizeSchema (JObj schema)) ''type'' = map_of (prepare schema) ''type''"
    by (simp add: sanitize_object_lookup)
  ultimately show ?thesis using prepare_bound [OF assms, of schema] by simp
qed

text \<open>The theorem at a string-typed and at an integer-typed object.\<close>

theorem C8_bounds_kept_or_dropped_witness:
  "get_prop (sanitizeSchema (JObj [(''type'', JStr ''string''), (''minimum'', JNum 1)])) ''minimum'' = None
 \<and> get_prop (sanitizeSchema (JObj [(''type'', JStr ''integer''), (''minimum'', JNum 1)])) ''minimum'' = Some (JNum 1)"
  using C8_bounds_kept_or_dropped [of "''minimum''" "[(''type'', JStr ''string''), (''minimum'', JNum 1)]"]
        C8_bounds_kept_or_dropped [of "''minimum''" "[(''type'', JStr ''integer''), (''minimum'', JNum 1)]"]
  by (simp add: sanitize_object_lookup prepare_type)

text \<open>
  The claim as written removes the three keys from an object without a type; the guard
  \<^verbatim>\<open>clean.type &&\<close> keeps them there.
\<close>

theorem C8_untyped_counterexample:
  "sanitizeSchema (JObj [(''minimum'', JNum 1), (''maximum'', JNum 9), (''multipleOf'', JNum 2)])
     = JObj [(''minimum'', JNum 1), (''maximum'', JNum 9), (''multipleOf'', JNum 2)]"
  by code_simp


section \<open>Idempotence of the sanitizer\<close>

text \<open>
  A value in which no \<^verbatim>\<open>type\<close> array has an array among its entries (so in particular
  every value whose type arrays are arrays of strings).
\<close>

fun flat_types :: "json \<Rightarrow> bool" where
  "flat_types (JObj kvs) =
     (\<forall>(k, v) \<in> set kvs.
        (k = ''type'' \<longrightarrow> (case v of JArr ts \<Rightarrow> \<forall>t \<in> set ts. \<not> is_array t | _ \<Rightarrow> True))
        \<and> flat_types v)"
| "flat_types (JArr xs) = (\<forall>x \<in> set xs. flat_types x)"
| "flat_types v = True"

text \<open>An object on which the statements before the recursive rewrites change nothing.\<close>

definition settled :: "props \<Rightarrow> bool" where
  "settled c \<longleftrightarrow>
     (\<forall>k \<in> set unsupported_keys. map_of c k = None)
   \<and> (\<forall>f. map_of c ''format'' = Some f \<longrightarrow> \<not> truthy f \<or> f = JStr ''enum'' \<or> f = JStr ''date-time'')
   \<and> (\<forall>ts. map_of c ''type'' \<noteq> Some (JArr ts))
   \<and> map_of c ''additionalProperties'' \<noteq> Some (JBool False)
   \<and> map_of c ''required'' \<noteq> Some (JArr [])
   \<and> (\<forall>t. map_of c ''type'' = Some t \<and> truthy t \<and> t \<noteq> JStr ''number'' \<and> t \<noteq> JStr ''integer'' \<longrightarrow>
          map_of c ''minimum'' = None \<and> map_of c ''maximum'' = None \<and> map_of c ''multipleOf'' = None)"

lemma delete_absent: "map_of c k = None \<Longrightarrow> AList.delete k c = c"
  by (simp add: map_of_eq_None_iff)

lemma drop_unsupported_idle:
  assumes "\<forall>k \<in> set unsupported_keys. map_of c k = None"
  shows "drop_unsupported c = c"
proof -
  have "\<forall>p \<in> set c. fst p \<notin> set unsupported_keys"
  proof (rule ballI, rule notI)
    fix p assume "p \<in> set c" "fst p \<in> set unsupported_keys"
    then have "map_of c (fst p) = None" "fst p \<in> fst ` set c" using assms by auto
    then show False by (simp add: map_of_eq_None_iff)
  qed
  then have "filter (\<lambda>p. fst p \<notin> set unsupported_keys) c = c"
    by (rule filter_True)
  then show ?thesis by (simp add: drop_unsupported_def fold_delete_filter)
qed

lemma drop_format_idle:
  "\<forall>f. map_of c ''format'' = Some f \<longrightarrow> \<not> truthy f \<or> f = JStr ''enum'' \<or> f = JStr ''date-time''
     \<Longrightarrow> drop_format c = c"
  by (auto simp: drop_format_def split: option.splits)

lemma collapse_type_idle: "\<forall>ts. map_of c ''type'' \<noteq> Some (JArr ts) \<Longrightarrow> collapse_type c = c"
  by (auto simp: collapse_type_def split: option.splits json.splits)

lemma drop_closed_idle: "map_of c ''additionalProperties'' \<noteq> Some (JBool False) \<Longrightarrow> drop_closed c = c"
  by (simp add: drop_closed_def)

lemma drop_empty_required_idle: "map_of c ''required'' \<noteq> Some (JArr []) \<Longrightarrow> drop_empty_required c = c"
  by (simp add: drop_empty_required_def)

lemma drop_bounds_idle:
  "\<forall>t. map_of c ''type'' = Some t \<and> truthy t \<and> t \<noteq> JStr ''number'' \<and> t \<noteq> JStr ''integer'' \<longrightarrow>
          map_of c ''minimum'' = None \<and> map_of c ''maximum'' = None \<and> map_of c ''multipleOf'' = None
     \<Longrightarrow> drop_bounds c = c"
  by (auto simp: drop_bounds_def delete_absent split: option.splits)

lemma settled_prepare:
  assumes "settled c"
  shows "prepare c = c"
proof -
  have 1: "drop_unsupported c = c"
    using assms by (intro drop_unsupported_idle) (simp add: settled_def)
  have 2: "drop_format c = c"
    using assms by (intro drop_format_idle) (simp add: settled_def)
  have 3: "collapse_type c = c"
    using assms by (intro collapse_type_idle) (simp add: settled_def)
  have 4: "drop_closed c = c"
    using assms by (intro drop_closed_idle) (simp add: settled_def)
  have 5: "drop_empty_required c = c"
    using assms by (intro drop_empty_required_idle) (simp add: settled_def)
  have 6: "drop_bounds c = c"
    using assms by (intro drop_bounds_idle) (simp add: settled_def)
  show ?thesis
    unfolding prepare_def 1 2 3 4 5 6 ..
qed

text \<open>Lookups of the cleaned object at the remaining keys.\<close>

lemma drop_format_format:
  "map_of (drop_format c) ''format'' =
     (case map_of c ''format'' of
        Some f \<Rightarrow> if truthy f \<and> f \<noteq> JStr ''enum'' \<and> f \<noteq> JStr ''date-time'' then None else Some f
      | None \<Rightarrow> None)"
  by (simp add: drop_format_def delete_conv' split: option.splits)

lemma drop_closed_additional:
  "map_of (drop_closed c) ''additionalProperties'' \<noteq> Some (JBool False)"
  by (simp add: drop_closed_def delete_conv')

lemma drop_empty_required_required:
  "map_of (drop_empty_required c) ''required'' \<noteq> Some (JArr [])"
  by (simp add: drop_empty_required_def delete_conv')

lemma prepare_unsupported: "k \<in> set unsupported_keys \<Longrightarrow> map_of (prepare c) k = None"
  by (auto simp add: prepare_def drop_bounds_lookup drop_empty_required_lookup drop_closed_lookup
        collapse_type_lookup drop_format_lookup drop_unsupported_lookup unsupported_keys_def)

lemma prepare_format:
  "map_of (prepare c) ''format'' = Some f \<Longrightarrow> \<not> truthy f \<or> f = JStr ''enum'' \<or> f = JStr ''date-time''"
  by (auto simp add: prepare_def drop_bounds_lookup drop_empty_required_lookup drop_closed_lookup
        collapse_type_lookup drop_format_format drop_unsupported_lookup unsupported_keys_def
        split: option.splits if_splits)

lemma prepare_additional: "map_of (prepare c) ''additionalProperties'' \<noteq> Some (JBool False)"
  by (simp add: prepare_def drop_bounds_lookup drop_empty_required_lookup drop_closed_additional)

lemma prepare_required: "map_of (prepare c) ''required'' \<noteq> Some (JArr [])"
  by (simp add: prepare_def drop_bounds_lookup drop_empty_required_required)

lemma collapsed_flat:
  assumes "\<forall>t \<in> set ts. \<not> is_array t"
  shows "collapsed ts \<noteq> JArr us"
proof (cases "find (\<lambda>t. t \<noteq> JStr ''null'') ts")
  case None
  then show ?thesis by (simp add: collapsed_def)
next
  case (Some t)
  then have "t \<in> set ts" by (auto simp: find_Some_iff)
  with assms have "\<not> is_array t" by blast
  with Some show ?thesis by (auto simp: collapsed_def)
qed

lemma prepare_settled:
  assumes "\<forall>ts. map_of c ''type'' = Some (JArr ts) \<longrightarrow> (\<forall>t \<in> set ts. \<not> is_array t)"
  shows "settled (prepare c)"
proof -
  have ty: "map_of (prepare c) ''type'' \<noteq> Some (JArr us)" for us
    using assms collapsed_flat by (auto simp: prepare_type split: option.splits json.splits)
  have bd: "map_of (prepare c) k = None"
    if "k = ''minimum'' \<or> k = ''maximum'' \<or> k = ''multipleOf''"
       "map_of (prepare c) ''type'' = Some t" "truthy t" "t \<noteq> JStr ''number''" "t \<noteq> JStr ''integer''"
    for k t
    using prepare_bound [OF that(1), of c] that(2-) by simp
  show ?thesis
    unfolding settled_def
    using prepare_unsupported prepare_format prepare_additional prepare_required ty bd
    by blast
qed

lemma settled_recursed:
  assumes "settled c" and "\<And>a. is_object a \<Longrightarrow> rec a \<noteq> JBool False"
  shows "settled (recurse_additional rec (recurse_items rec (recurse_properties rec c)))"
proof -
  let ?r = "recurse_additional rec (recurse_items rec (recurse_properties rec c))"
  have same: "map_of ?r k = map_of c k"
    if "k \<noteq> ''properties''" "k \<noteq> ''items''" "k \<noteq> ''additionalProperties''" for k
    using that by (simp add: recurse_additional_lookup recurse_items_lookup recurse_properties_lookup)
  have ap: "map_of ?r ''additionalProperties'' \<noteq> Some (JBool False)"
    using assms unfolding settled_def
    by (auto simp: recurse_additional_def recurse_items_lookup recurse_properties_lookup update_conv'
          split: option.splits)
  have un: "\<forall>k \<in> set unsupported_keys. map_of ?r k = map_of c k"
    by (auto simp: unsupported_keys_def same)
  show ?thesis
    using assms(1) ap un unfolding settled_def
    by (simp add: same)
qed


lemma truthy_sanitizeSchema: "truthy (sanitizeSchema v) = truthy v"
  by (cases v) auto

lemma is_object_sanitizeSchema: "is_object (sanitizeSchema v) = is_object v"
  by (cases v) auto

lemma sanitizeSchema_not_false: "is_object a \<Longrightarrow> sanitizeSchema a \<noteq> JBool False"
  by (cases a) auto

lemma recurse_properties_fix:
  "(\<And>p. map_of r ''properties'' = Some p \<Longrightarrow> truthy p \<Longrightarrow> is_object p \<Longrightarrow> rebuild_props f p = p)
     \<Longrightarrow> recurse_properties f r = r"
  by (auto simp: recurse_properties_def update_triv split: option.splits)

lemma recurse_items_fix:
  "(\<And>i. map_of r ''items'' = Some i \<Longrightarrow> truthy i \<Longrightarrow> f i = i) \<Longrightarrow> recurse_items f r = r"
  by (auto simp: recurse_items_def update_triv split: option.splits)

lemma recurse_additional_fix:
  "(\<And>a. map_of r ''additionalProperties'' = Some a \<Longrightarrow> truthy a \<Longrightarrow> is_object a \<Longrightarrow> f a = a)
     \<Longrightarrow> recurse_additional f r = r"
  by (auto simp: recurse_additional_def update_triv split: option.splits)

lemma rebuild_props_twice:
  assumes "\<And>k v. (k, v) \<in> set (entries p) \<Longrightarrow> f (f v) = f v"
  shows "rebuild_props f (rebuild_props f p) = rebuild_props f p"
proof -
  let ?keep = "filter (\<lambda>(key, v). key \<noteq> ''__proto__'') (entries p)"
  let ?once = "map (\<lambda>(key, v). (key, f v)) ?keep"
  have "filter (\<lambda>(key, v). key \<noteq> ''__proto__'') ?once = ?once"
    by (induction "entries p") (auto simp: filter_map o_def split_beta filter_id_conv)
  moreover have "map (\<lambda>(key, v). (key, f v)) ?once = ?once"
    using assms by (auto simp: split_beta)
  ultimately show ?thesis by (simp add: rebuild_props_def)
qed

lemma flat_types_value: "flat_types (JObj kvs) \<Longrightarrow> (k, v) \<in> set kvs \<Longrightarrow> flat_types v"
  by auto

lemma flat_types_entry: "flat_types p \<Longrightarrow> (k, v) \<in> set (entries p) \<Longrightarrow> flat_types v"
  by (cases p) (auto dest: set_zip_rightD)

lemma sanitizeSchema_idem_aux: "flat_types x \<longrightarrow> sanitizeSchema (sanitizeSchema x) = sanitizeSchema x"
proof (induction x rule: sanitizeSchema.induct)
  case (1 schema)
  show ?case
  proof
    assume flat: "flat_types (JObj schema)"
    let ?S = sanitizeSchema
    let ?c = "prepare schema"
    let ?r = "sanitize_object ?S schema"
    have r_def: "?r = recurse_additional ?S (recurse_items ?S (recurse_properties ?S ?c))"
      by (rule sanitize_object_prepare)
    have child: "(k, v) \<in> set schema" if "map_of ?c k = Some v" "k \<noteq> ''type''" "k \<noteq> ''nullable''" for k v
      using that by (meson map_of_SomeD prepare_origin)
    have ih_child: "?S (?S v) = ?S v" if "(k, v) \<in> set schema" for k v
      using "1.IH" [of v] that flat flat_types_value size_value_less by blast
    have ih_grand: "?S (?S v) = ?S v" if "(k, p) \<in> set schema" "(k', v) \<in> set (entries p)" for k p k' v
    proof -
      have "size v < size (JObj schema)"
        using size_value_less [OF that(1)] size_entries_less [OF that(2)] by simp
      moreover have "flat_types v"
        using flat that flat_types_value flat_types_entry by blast
      ultimately show ?thesis using "1.IH" by blast
    qed
    have "settled ?c"
    proof (rule prepare_settled, intro allI impI)
      fix ts assume "map_of schema ''type'' = Some (JArr ts)"
      then have "(''type'', JArr ts) \<in> set schema" by (rule map_of_SomeD)
      with flat show "\<forall>t \<in> set ts. \<not> is_array t" by auto
    qed
    then have "settled ?r"
      unfolding r_def by (rule settled_recursed) (rule sanitizeSchema_not_false)
    then have prep: "prepare ?r = ?r" by (rule settled_prepare)
    have props: "recurse_properties ?S ?r = ?r"
    proof (rule recurse_properties_fix)
      fix p' assume p': "map_of ?r ''properties'' = Some p'" "truthy p'" "is_object p'"
      then have "map_of (recurse_properties ?S ?c) ''properties'' = Some p'"
        by (simp add: r_def recurse_additional_lookup recurse_items_lookup)
      then obtain p where p: "map_of ?c ''properties'' = Some p" "p' = rebuild_props ?S p"
        using p'(2,3) by (auto simp: recurse_properties_def update_conv' split: option.splits if_splits)
      have "(''properties'', p) \<in> set schema" using p(1) by (auto intro: child)
      then have "rebuild_props ?S (rebuild_props ?S p) = rebuild_props ?S p"
        by (intro rebuild_props_twice) (rule ih_grand)
      then show "rebuild_props ?S p' = p'" by (simp add: p(2))
    qed
    have items: "recurse_items ?S ?r = ?r"
    proof (rule recurse_items_fix)
      fix i' assume i': "map_of ?r ''items'' = Some i'" "truthy i'"
      then have "map_of (recurse_items ?S (recurse_properties ?S ?c)) ''items'' = Some i'"
        by (simp add: r_def recurse_additional_lookup)
      then obtain i where i: "map_of ?c ''items'' = Some i" "i' = ?S i"
        using i'(2)
        by (auto simp: recurse_items_def recurse_properties_lookup update_conv' split: option.splits if_splits)
      have "(''items'', i) \<in> set schema" using i(1) by (auto intro: child)
      then show "?S i' = i'" unfolding i(2) by (rule ih_child)
    qed
    have addl: "recurse_additional ?S ?r = ?r"
    proof (rule recurse_additional_fix)
      fix a' assume a': "map_of ?r ''additionalProperties'' = Some a'" "truthy a'" "is_object a'"
      then obtain a where a: "map_of ?c ''additionalProperties'' = Some a" "a' = ?S a"
        unfolding r_def
        by (auto simp: recurse_additional_def recurse_items_lookup recurse_properties_lookup update_conv'
              split: option.splits if_splits)
      have "(''additionalProperties'', a) \<in> set schema" using a(1) by (auto intro: child)
      then show "?S a' = a'" unfolding a(2) by (rule ih_child)
    qed
    have "sanitize_object ?S ?r = ?r"
      unfolding sanitize_object_prepare [of ?S ?r] prep props items addl ..
    then show "?S (?S (JObj schema)) = ?S (JObj schema)" by simp
  qed
qed simp_all

text \<open>
  Claim C2, as the code has it. For every JSON value in which no \<^verbatim>\<open>type\<close> array has an
  array among its entries, sanitizing the sanitized value gives the sanitized value again.
\<close>

theorem C2_sanitize_idempotent:
  "flat_types x \<Longrightarrow> sanitizeSchema (sanitizeSchema x) = sanitizeSchema x"
  using sanitizeSchema_idem_aux by blast

text \<open>
  The theorem at a tool schema with a nullable type, a closed nested object, a tuple-typed
  array and a bound on a string.
\<close>

theorem C2_sanitize_idempotent_witness:
  "flat_types (JObj [(''type'', JArr [JStr ''object'', JStr ''null'']), (''$schema'', JStr ''x''),
       (''properties'', JObj [(''n'', JObj [(''type'', JStr ''string''), (''minimum'', JNum 1), (''format'', JStr ''uri'')]),
                              (''xs'', JObj [(''type'', JStr ''array''), (''prefixItems'', JArr []),
                                             (''items'', JObj [(''type'', JArr [JStr ''null''])])])]),
       (''additionalProperties'', JBool False), (''required'', JArr [])])
   \<and> sanitizeSchema (sanitizeSchema (JObj [(''type'', JArr [JStr ''object'', JStr ''null'']), (''$schema'', JStr ''x''),
       (''properties'', JObj [(''n'', JObj [(''type'', JStr ''string''), (''minimum'', JNum 1), (''format'', JStr ''uri'')]),
                              (''xs'', JObj [(''type'', JStr ''array''), (''prefixItems'', JArr []),
                                             (''items'', JObj [(''type'', JArr [JStr ''null''])])])]),
       (''additionalProperties'', JBool False), (''required'', JArr [])]))
     = JObj [(''type'', JStr ''object''), (''properties'', JObj [(''n'', JObj [(''type'', JStr ''string'')]),
                              (''xs'', JObj [(''type'', JStr ''array''), (''items'', JObj [(''type'', JStr ''string'')])])]),
             (''nullable'', JBool True)]"
proof -
  let ?x = "JObj [(''type'', JArr [JStr ''object'', JStr ''null'']), (''$schema'', JStr ''x''),
       (''properties'', JObj [(''n'', JObj [(''type'', JStr ''string''), (''minimum'', JNum 1), (''format'', JStr ''uri'')]),
                              (''xs'', JObj [(''type'', JStr ''array''), (''prefixItems'', JArr []),
                                             (''items'', JObj [(''type'', JArr [JStr ''null''])])])]),
       (''additionalProperties'', JBool False), (''required'', JArr [])]"
  have flat: "flat_types ?x" by code_simp
  have once: "sanitizeSchema ?x
     = JObj [(''type'', JStr ''object''), (''properties'', JObj [(''n'', JObj [(''type'', JStr ''string'')]),
                              (''xs'', JObj [(''type'', JStr ''array''), (''items'', JObj [(''type'', JStr ''string'')])])]),
             (''nullable'', JBool True)]"
    by code_simp
  show ?thesis
    using flat C2_sanitize_idempotent [OF flat] unfolding once by (intro conjI)
qed

text \<open>
  The claim as written covers every JSON value. A type array whose first entry is itself
  an array is collapsed to that inner array by the first pass and collapsed again by the
  second: \<^verbatim>\<open>{type: [["a", "null"]]}\<close> becomes \<^verbatim>\<open>{type: ["a", "null"]}\<close>, then
  \<^verbatim>\<open>{type: "a", nullable: true}\<close>.
\<close>

theorem C2_nested_type_counterexample:
  "sanitizeSchema (sanitizeSchema (JObj [(''type'', JArr [JArr [JStr ''a'', JStr ''null'']])]))
     \<noteq> sanitizeSchema (JObj [(''type'', JArr [JArr [JStr ''a'', JStr ''null'']])])"
  by code_simp


section \<open>The sanitizer of the single-user proxy\<close>

text \<open>
  \<^verbatim>\<open>sanitizeSchema\<close> of \<^verbatim>\<open>src/gemini-proxy.js\<close> (lines 23 to 112), written out statement
  by statement on the own properties of an object.
\<close>

definition sanitize_object_single_user :: "(json \<Rightarrow> json) \<Rightarrow> props \<Rightarrow> props" where
  "sanitize_object_single_user rec schema =
    (let clean = schema;
         clean = AList.delete ''$ref'' clean;
         clean = AList.delete ''$schema'' clean;
         clean = AList.delete ''$id'' clean;
         clean = AList.delete ''definitions'' clean;
         clean = AList.delete ''$defs'' clean;
         clean = AList.delete ''anyOf'' clean;
         clean = AList.delete ''oneOf'' clean;
         clean = AList.delete ''allOf'' clean;
         clean = AList.delete ''not'' clean;
         clean = AList.delete ''exclusiveMaximum'' clean;
         clean = AList.delete ''exclusiveMinimum'' clean;
         clean = AList.delete ''const'' clean;
         clean = AList.delete ''contentEncoding'' clean;
         clean = AList.delete ''contentMediaType'' clean;
         clean = AList.delete ''prefixItems'' clean;
         clean = AList.delete ''contains'' clean;
         clean = AList.delete ''minContains'' clean;
         clean = AList.delete ''maxContains'' clean;
         clean = AList.delete ''propertyNames'' clean;
         clean = AList.delete ''patternProperties'' clean;
         clean = AList.delete ''dependentSchemas'' clean;
         clean = AList.delete ''dependentRequired'' clean;
         clean = (case map_of clean ''format'' of
                    Some f \<Rightarrow> if truthy f \<and> f \<notin> set [JStr ''enum'', JStr ''date-time'']
                              then AList.delete ''format'' clean else clean
                  | None \<Rightarrow> clean);
         clean = (case map_of clean ''type'' of
                    Some (JArr ts) \<Rightarrow>
                      (case find (\<lambda>t. t \<noteq> JStr ''null'') ts of
                         Some t \<Rightarrow>
                           if truthy t
                           then (if JStr ''null'' \<in> set ts
                                 then AList.update ''nullable'' (JBool True) (AList.update ''type'' t clean)
                                 else AList.update ''type'' t clean)
                           else AList.update ''type'' (JStr ''string'') clean
                       | None \<Rightarrow> AList.update ''type'' (JStr ''string'') clean)
                  | _ \<Rightarrow> clean);
         clean = (if map_of clean ''additionalProperties'' = Some (JBool False)
                  then AList.delete ''additionalProperties'' clean else clean);
         clean = (case map_of clean ''required'' of
                    Some (JArr []) \<Rightarrow> AList.delete ''required'' clean
                  | _ \<Rightarrow> clean);
         clean = (case map_of clean ''type'' of
                    Some t \<Rightarrow> if truthy t \<and> t \<notin> set [JStr ''number'', JStr ''integer'']
                              then AList.delete ''multipleOf'' (AList.delete ''maximum'' (AList.delete ''minimum'' clean))
                              else clean
                  | None \<Rightarrow> clean);
         clean = (case map_of clean ''properties'' of
                    Some p \<Rightarrow>
                      if truthy p \<and> is_object p
                      then AList.update ''properties''
                             (JObj (map (\<lambda>(key, v). (key, rec v))
                                      (filter (\<lambda>(key, v). key \<noteq> ''__proto__'') (entries p)))) clean
                      else clean
                  | None \<Rightarrow> clean);
         clean = (case map_of clean ''items'' of
                    Some i \<Rightarrow> if truthy i then AList.update ''items'' (rec i) clean else clean
                  | None \<Rightarrow> clean);
         clean = (case map_of clean ''additionalProperties'' of
                    Some a \<Rightarrow> if truthy a \<and> is_object a
                              then AList.update ''additionalProperties'' (rec a) clean else clean
                  | None \<Rightarrow> clean)
     in clean)"

text \<open>Each statement is one of the steps of the per-conversation sanitizer.\<close>

lemma drop_format_alt:
  "(case map_of c ''format'' of
      Some f \<Rightarrow> if truthy f \<and> f \<notin> set [JStr ''enum'', JStr ''date-time'']
                then AList.delete ''format'' c else c
    | None \<Rightarrow> c) = drop_format c"
  by (simp add: drop_format_def split: option.splits)

lemma collapse_type_alt:
  "(case map_of c ''type'' of
      Some (JArr ts) \<Rightarrow>
        (case find (\<lambda>t. t \<noteq> JStr ''null'') ts of
           Some t \<Rightarrow>
             if truthy t
             then (if JStr ''null'' \<in> set ts
                   then AList.update ''nullable'' (JBool True) (AList.update ''type'' t c)
                   else AList.update ''type'' t c)
             else AList.update ''type'' (JStr ''string'') c
         | None \<Rightarrow> AList.update ''type'' (JStr ''string'') c)
    | _ \<Rightarrow> c) = collapse_type c"
  by (simp add: collapse_type_def Let_def split: option.splits json.splits)

lemma drop_empty_required_alt:
  "(case map_of c ''required'' of Some (JArr []) \<Rightarrow> AList.delete ''required'' c | _ \<Rightarrow> c)
     = drop_empty_required c"
  by (simp add: drop_empty_required_def split: option.splits json.splits list.splits)

lemma drop_bounds_alt:
  "(case map_of c ''type'' of
      Some t \<Rightarrow> if truthy t \<and> t \<notin> set [JStr ''number'', JStr ''integer'']
                then AList.delete ''multipleOf'' (AList.delete ''maximum'' (AList.delete ''minimum'' c))
                else c
    | None \<Rightarrow> c) = drop_bounds c"
  by (simp add: drop_bounds_def split: option.splits)

lemma drop_unsupported_alt:
  "AList.delete ''dependentRequired'' (AList.delete ''dependentSchemas'' (AList.delete ''patternProperties''
   (AList.delete ''propertyNames'' (AList.delete ''maxContains'' (AList.delete ''minContains''
   (AList.delete ''contains'' (AList.delete ''prefixItems'' (AList.delete ''contentMediaType''
   (AList.delete ''contentEncoding'' (AList.delete ''const'' (AList.delete ''exclusiveMinimum''
   (AList.delete ''exclusiveMaximum'' (AList.delete ''not'' (AList.delete ''allOf'' (AList.delete ''oneOf''
   (AList.delete ''anyOf'' (AList.delete ''$defs'' (AList.delete ''definitions'' (AList.delete ''$id''
   (AList.delete ''$schema'' (AList.delete ''$ref'' c))))))))))))))))))))) = drop_unsupported c"
  by (simp only: drop_unsupported_def unsupported_keys_def fold_simps)

lemma drop_closed_alt:
  "(if map_of c ''additionalProperties'' = Some (JBool False)
    then AList.delete ''additionalProperties'' c else c) = drop_closed c"
  by (simp add: drop_closed_def)

lemma recurse_properties_alt:
  "(case map_of c ''properties'' of
      Some p \<Rightarrow>
        if truthy p \<and> is_object p
        then AList.update ''properties''
               (JObj (map (\<lambda>(key, v). (key, rec v))
                        (filter (\<lambda>(key, v). key \<noteq> ''__proto__'') (entries p)))) c
        else c
    | None \<Rightarrow> c) = recurse_properties rec c"
  by (simp add: recurse_properties_def rebuild_props_def split: option.splits)

lemma recurse_items_alt:
  "(case map_of c ''items'' of
      Some i \<Rightarrow> if truthy i then AList.update ''items'' (rec i) c else c
    | None \<Rightarrow> c) = recurse_items rec c"
  by (simp add: recurse_items_def)

lemma recurse_additional_alt:
  "(case map_of c ''additionalProperties'' of
      Some a \<Rightarrow> if truthy a \<and> is_object a
                then AList.update ''additionalProperties'' (rec a) c else c
    | None \<Rightarrow> c) = recurse_additional rec c"
  by (simp add: recurse_additional_def)

lemma sanitize_object_single_user_eq:
  "sanitize_object_single_user rec schema = sanitize_object rec schema"
  unfolding sanitize_object_single_user_def
  unfolding drop_format_alt collapse_type_alt drop_closed_alt drop_empty_required_alt drop_bounds_alt
    recurse_properties_alt recurse_items_alt recurse_additional_alt
  unfolding Let_def drop_unsupported_alt sanitize_object_def ..

lemma sanitize_object_single_user_cong [fundef_cong]:
  assumes "schema = schema'"
    and "\<And>v. size v < size (JObj schema') \<Longrightarrow> f v = g v"
  shows "sanitize_object_single_user f schema = sanitize_object_single_user g schema'"
  unfolding sanitize_object_single_user_eq using assms by (rule sanitize_object_cong)

fun sanitizeSchema_single_user :: "json \<Rightarrow> json" where
  "sanitizeSchema_single_user (JObj schema) = JObj (sanitize_object_single_user sanitizeSchema_single_user schema)"
| "sanitizeSchema_single_user schema = schema"

text \<open>
  Claim C10. The sanitizer of the single-user proxy and the sanitizer of the
  per-conversation proxy return the same value on every JSON value.
\<close>

theorem C10_sanitizers_agree: "sanitizeSchema_single_user x = sanitizeSchema x"
proof (induction x rule: sanitizeSchema.induct)
  case (1 schema)
  have "sanitize_object sanitizeSchema_single_user schema = sanitize_object sanitizeSchema schema"
    by (rule sanitize_object_cong) (simp_all add: "1.IH")
  then show ?case by (simp add: sanitize_object_single_user_eq)
qed simp_all


section \<open>The signature store and its cleanup\<close>

text \<open>
  \<^verbatim>\<open>conversationSignatures\<close> is a \<^verbatim>\<open>Map\<close> from conversation id to a \<^verbatim>\<open>Map\<close> from tool-call
  id to \<^verbatim>\<open>{signature, timestamp}\<close>. A \<^verbatim>\<open>Map\<close> is kept as the list of its entries in
  insertion order, which is the order its iteration and \<^verbatim>\<open>Array.from\<close> follow; its keys are
  distinct. Timestamps are the milliseconds of \<^verbatim>\<open>Date.now()\<close>.
\<close>

record sig_record =
  signature :: json
  timestamp :: int

type_synonym signatures_map = "(json \<times> sig_record) list"
type_synonym signature_store = "(string \<times> signatures_map) list"

text \<open>
  \<^verbatim>\<open>cleanupSignatures\<close> (lines 60 to 90), with the clock reading as a parameter. The inner
  loop deletes the entries older than \<^verbatim>\<open>oneHourAgo\<close>.
\<close>

definition expire_signatures :: "int \<Rightarrow> signatures_map \<Rightarrow> signatures_map" where
  "expire_signatures oneHourAgo signaturesMap =
     fold (\<lambda>(toolCallId, data) m. if timestamp data < oneHourAgo then AList.delete toolCallId m else m)
       signaturesMap signaturesMap"

text \<open>
  Above 100 entries: \<^verbatim>\<open>entries.sort((a, b) => a[1].timestamp - b[1].timestamp)\<close> is a stable
  sort by timestamp, \<^verbatim>\<open>slice(0, size - 100)\<close> takes the oldest, and each is deleted by id.
\<close>

definition trim_signatures :: "signatures_map \<Rightarrow> signatures_map" where
  "trim_signatures signaturesMap =
     (if length signaturesMap > 100
      then (let entries = sort_key (\<lambda>(toolCallId, data). timestamp data) signaturesMap;
                toRemove = take (length signaturesMap - 100) entries
            in fold (\<lambda>(toolCallId, data) m. AList.delete toolCallId m) toRemove signaturesMap)
      else signaturesMap)"

text \<open>One round of the outer loop, and the loop over the entries of the store.\<close>

definition cleanup_conversation :: "int \<Rightarrow> string \<times> signatures_map \<Rightarrow> signature_store \<Rightarrow> signature_store" where
  "cleanup_conversation oneHourAgo = (\<lambda>(conversationId, signaturesMap) store.
     (let remaining = expire_signatures oneHourAgo signaturesMap
      in if length remaining = 0 then AList.delete conversationId store
         else AList.update conversationId (trim_signatures remaining) store))"

definition cleanupSignatures :: "int \<Rightarrow> signature_store \<Rightarrow> signature_store" where
  "cleanupSignatures now store =
     (let oneHourAgo = now - (60 * 60 * 1000)
      in fold (cleanup_conversation oneHourAgo) store store)"

lemma fold_delete_keys:
  "fold (\<lambda>(k, d) m. if P d then AList.delete k m else m) xs m
     = filter (\<lambda>e. fst e \<notin> set (map fst (filter (\<lambda>x. P (snd x)) xs))) m"
proof (induction xs arbitrary: m)
  case Nil then show ?case by simp
next
  case (Cons x xs)
  obtain k d where x: "x = (k, d)" by (cases x)
  show ?case
    unfolding x by (auto simp: Cons AList.delete_eq intro!: filter_cong)
qed

lemma expire_signatures_filter:
  assumes "distinct (map fst m)"
  shows "expire_signatures t m = filter (\<lambda>e. t \<le> timestamp (snd e)) m"
proof -
  let ?old = "filter (\<lambda>x. timestamp (snd x) < t) m"
  have "fst e \<notin> set (map fst ?old) \<longleftrightarrow> t \<le> timestamp (snd e)" if "e \<in> set m" for e
  proof
    assume "fst e \<notin> set (map fst ?old)"
    with that show "t \<le> timestamp (snd e)" by force
  next
    assume w: "t \<le> timestamp (snd e)"
    show "fst e \<notin> set (map fst ?old)"
    proof
      assume "fst e \<in> set (map fst ?old)"
      then obtain x where x: "x \<in> set m" "timestamp (snd x) < t" "fst x = fst e" by auto
      from assms x(1,3) that have "x = e" by (auto simp: distinct_map dest: inj_onD)
      with x(2) w show False by simp
    qed
  qed
  then show ?thesis
    unfolding expire_signatures_def fold_delete_keys by (intro filter_cong) auto
qed

lemma trim_signatures_filter:
  "trim_signatures m =
     (if length m > 100
      then filter (\<lambda>e. fst e \<notin> fst ` set (take (length m - 100) (sort_key (\<lambda>e. timestamp (snd e)) m))) m
      else m)"
proof -
  have 1: "fold (\<lambda>(k, d) m. AList.delete k m) xs m = filter (\<lambda>e. fst e \<notin> fst ` set xs) m"
    for xs :: signatures_map and m
    using fold_delete_keys [of "\<lambda>d. True" xs m] by simp
  have 2: "(\<lambda>(toolCallId, data). timestamp data) = (\<lambda>e. timestamp (snd e))"
    by auto
  show ?thesis
    unfolding trim_signatures_def Let_def 1 2 ..
qed

lemma trim_signatures_cap:
  assumes d: "distinct (map fst m)" and big: "length m > 100"
  shows "length (trim_signatures m) = 100"
    and "set (trim_signatures m) \<subseteq> set m"
    and "\<forall>r \<in> set m - set (trim_signatures m). \<forall>e \<in> set (trim_signatures m).
           timestamp (snd r) \<le> timestamp (snd e)"
proof -
  let ?ts = "\<lambda>e::json \<times> sig_record. timestamp (snd e)"
  let ?sorted = "sort_key ?ts m"
  let ?n = "length m - 100"
  let ?rem = "take ?n ?sorted"
  let ?rest = "drop ?n ?sorted"
  let ?kept = "trim_signatures m"
  have dm: "distinct m" using d by (rule distinct_map [THEN iffD1, THEN conjunct1])
  have inj: "inj_on fst (set m)" using d by (simp add: distinct_map)
  have kept: "?kept = filter (\<lambda>e. fst e \<notin> fst ` set ?rem) m"
    using big by (simp add: trim_signatures_filter)
  have rem_sub: "set ?rem \<subseteq> set m"
    using set_take_subset [of ?n ?sorted] by simp
  have key_iff: "fst e \<in> fst ` set ?rem \<longleftrightarrow> e \<in> set ?rem" if "e \<in> set m" for e
    using that rem_sub inj by (auto dest: inj_onD)
  have kept': "?kept = filter (\<lambda>e. e \<notin> set ?rem) m"
    unfolding kept by (rule filter_cong) (auto simp: key_iff)
  have ds: "distinct ?sorted" using dm by simp
  have split: "set m = set ?rem \<union> set ?rest" "set ?rem \<inter> set ?rest = {}"
  proof -
    have "set ?sorted = set ?rem \<union> set ?rest"
      by (metis append_take_drop_id set_append)
    then show "set m = set ?rem \<union> set ?rest" by simp
    show "set ?rem \<inter> set ?rest = {}"
      using ds by (metis append_take_drop_id distinct_append)
  qed
  have set_kept: "set ?kept = set ?rest"
    unfolding kept' using split by auto
  have "distinct ?kept" unfolding kept' using dm by simp
  then have "length ?kept = card (set ?rest)"
    using set_kept by (metis distinct_card)
  also have "\<dots> = length ?rest"
    using ds by (simp add: distinct_card)
  also have "\<dots> = 100" using big by simp
  finally show "length ?kept = 100" .
  show "set ?kept \<subseteq> set m" unfolding kept' by auto
  have "sorted (map ?ts (?rem @ ?rest))" by simp
  then have le: "\<forall>r \<in> set ?rem. \<forall>e \<in> set ?rest. ?ts r \<le> ?ts e"
    unfolding map_append sorted_append by auto
  have "set m - set ?kept = set ?rem" using set_kept split by auto
  with le set_kept show "\<forall>r \<in> set m - set ?kept. \<forall>e \<in> set ?kept. ?ts r \<le> ?ts e"
    by simp
qed


lemma trim_signatures_small: "length m \<le> 100 \<Longrightarrow> trim_signatures m = m"
  by (simp add: trim_signatures_def)

lemma trim_signatures_one_over:
  assumes d: "distinct (map fst m)" and n: "length m = 101"
  shows "\<exists>oldest \<in> set m. (\<forall>e \<in> set m. timestamp (snd oldest) \<le> timestamp (snd e))
           \<and> trim_signatures m = remove1 oldest m"
proof -
  let ?ts = "\<lambda>e::json \<times> sig_record. timestamp (snd e)"
  let ?sorted = "sort_key ?ts m"
  have len: "length ?sorted = 101" using n by simp
  then obtain oldest rest where sr: "?sorted = oldest # rest" by (cases ?sorted) auto
  have dm: "distinct m" using d by (rule distinct_map [THEN iffD1, THEN conjunct1])
  have inj: "inj_on fst (set m)" using d by (simp add: distinct_map)
  have mem: "oldest \<in> set m"
    using sr by (metis list.set_intros(1) set_sort)
  have "sorted (map ?ts ?sorted)" by simp
  then have "\<forall>e \<in> set ?sorted. ?ts oldest \<le> ?ts e" unfolding sr by auto
  then have least: "\<forall>e \<in> set m. ?ts oldest \<le> ?ts e" by simp
  have "trim_signatures m = filter (\<lambda>e. fst e \<noteq> fst oldest) m"
    using n by (simp add: trim_signatures_filter sr)
  also have "\<dots> = filter (\<lambda>e. e \<noteq> oldest) m"
    using inj mem by (intro filter_cong) (auto dest: inj_onD)
  also have "\<dots> = removeAll oldest m"
    by (induction m) auto
  also have "\<dots> = remove1 oldest m"
    using dm by (simp add: distinct_remove1_removeAll)
  finally show ?thesis using mem least by blast
qed

lemma cleanup_conversation_lookup:
  "map_of (cleanup_conversation t (c, m) st) cid =
     (if cid = c
      then (if expire_signatures t m = [] then None
            else Some (trim_signatures (expire_signatures t m)))
      else map_of st cid)"
  by (simp add: cleanup_conversation_def Let_def update_conv' delete_conv')

lemma fold_cleanup_conversation:
  assumes "distinct (map fst xs)"
  shows "map_of (fold (cleanup_conversation t) xs st) cid =
     (case map_of xs cid of
        Some m \<Rightarrow> if expire_signatures t m = [] then None
                  else Some (trim_signatures (expire_signatures t m))
      | None \<Rightarrow> map_of st cid)"
  using assms
proof (induction xs arbitrary: st)
  case Nil then show ?case by simp
next
  case (Cons x xs)
  obtain c m where x: "x = (c, m)" by (cases x)
  have none: "map_of xs c = None" using Cons.prems by (simp add: x map_of_eq_None_iff)
  have d: "distinct (map fst xs)" using Cons.prems by simp
  have "map_of (fold (cleanup_conversation t) (x # xs) st) cid
      = (case map_of xs cid of
           Some m \<Rightarrow> if expire_signatures t m = [] then None
                     else Some (trim_signatures (expire_signatures t m))
         | None \<Rightarrow> map_of (cleanup_conversation t (c, m) st) cid)"
    by (simp add: Cons.IH [OF d] x)
  also have "\<dots> = (case map_of (x # xs) cid of
           Some m \<Rightarrow> if expire_signatures t m = [] then None
                     else Some (trim_signatures (expire_signatures t m))
         | None \<Rightarrow> map_of st cid)"
    using none by (auto simp: x cleanup_conversation_lookup split: option.splits)
  finally show ?case .
qed

lemma cleanupSignatures_lookup:
  assumes "distinct (map fst store)"
  shows "map_of (cleanupSignatures now store) cid =
     (case map_of store cid of
        Some m \<Rightarrow> if expire_signatures (now - 3600000) m = [] then None
                  else Some (trim_signatures (expire_signatures (now - 3600000) m))
      | None \<Rightarrow> None)"
  unfolding cleanupSignatures_def Let_def
  by (simp add: fold_cleanup_conversation [OF assms] split: option.splits)

text \<open>
  Claim C3. In a store with distinct conversation ids and distinct tool-call ids, for every
  conversation and every time \<open>now\<close>, with \<open>live\<close> the records whose timestamp is at most
  one hour (3600000 ms) before \<open>now\<close>: the conversation is removed when \<open>live\<close> is empty;
  its map is exactly \<open>live\<close> when that has between 1 and 100 records; when \<open>live\<close> has more
  than 100 records exactly 100 of them remain and every deleted one is at most as recent
  as every remaining one; with 101 live records the one deleted is an oldest record; and
  the sweep adds no conversation.
\<close>

theorem C3_sweep:
  assumes store: "distinct (map fst store)"
    and maps: "\<forall>(cid, m) \<in> set store. distinct (map fst m)"
    and conv: "(conversationId, signaturesMap) \<in> set store"
  shows "(filter (\<lambda>e. now - 3600000 \<le> timestamp (snd e)) signaturesMap = [] \<longrightarrow>
            map_of (cleanupSignatures now store) conversationId = None)
       \<and> (filter (\<lambda>e. now - 3600000 \<le> timestamp (snd e)) signaturesMap \<noteq> []
            \<and> length (filter (\<lambda>e. now - 3600000 \<le> timestamp (snd e)) signaturesMap) \<le> 100 \<longrightarrow>
            map_of (cleanupSignatures now store) conversationId
              = Some (filter (\<lambda>e. now - 3600000 \<le> timestamp (snd e)) signaturesMap))
       \<and> (100 < length (filter (\<lambda>e. now - 3600000 \<le> timestamp (snd e)) signaturesMap) \<longrightarrow>
            (\<exists>kept. map_of (cleanupSignatures now store) conversationId = Some kept
               \<and> length kept = 100
               \<and> set kept \<subseteq> set (filter (\<lambda>e. now - 3600000 \<le> timestamp (snd e)) signaturesMap)
               \<and> (\<forall>r \<in> set (filter (\<lambda>e. now - 3600000 \<le> timestamp (snd e)) signaturesMap) - set kept.
                    \<forall>e \<in> set kept. timestamp (snd r) \<le> timestamp (snd e))))
       \<and> (length (filter (\<lambda>e. now - 3600000 \<le> timestamp (snd e)) signaturesMap) = 101 \<longrightarrow>
            (\<exists>oldest \<in> set (filter (\<lambda>e. now - 3600000 \<le> timestamp (snd e)) signaturesMap).
               (\<forall>e \<in> set (filter (\<lambda>e. now - 3600000 \<le> timestamp (snd e)) signaturesMap).
                  timestamp (snd oldest) \<le> timestamp (snd e))
               \<and> map_of (cleanupSignatures now store) conversationId
                   = Some (remove1 oldest (filter (\<lambda>e. now - 3600000 \<le> timestamp (snd e)) signaturesMap))))
       \<and> (\<forall>cid. map_of store cid = None \<longrightarrow> map_of (cleanupSignatures now store) cid = None)"
proof -
  let ?live = "filter (\<lambda>e. now - 3600000 \<le> timestamp (snd e)) signaturesMap"
  let ?res = "cleanupSignatures now store"
  have dm: "distinct (map fst signaturesMap)" using maps conv by auto
  have dl: "distinct (map fst ?live)" using dm by (simp add: distinct_map_filter)
  have look: "map_of store conversationId = Some signaturesMap"
    using store conv by simp
  have ex: "expire_signatures (now - 3600000) signaturesMap = ?live"
    using dm by (rule expire_signatures_filter)
  have res: "map_of ?res conversationId = (if ?live = [] then None else Some (trim_signatures ?live))"
    by (simp add: cleanupSignatures_lookup [OF store] look ex)
  have 1: "?live = [] \<longrightarrow> map_of ?res conversationId = None"
    by (simp add: res)
  have 2: "?live \<noteq> [] \<and> length ?live \<le> 100 \<longrightarrow> map_of ?res conversationId = Some ?live"
    by (simp add: res trim_signatures_small)
  have 3: "100 < length ?live \<longrightarrow>
            (\<exists>kept. map_of ?res conversationId = Some kept \<and> length kept = 100 \<and> set kept \<subseteq> set ?live
               \<and> (\<forall>r \<in> set ?live - set kept. \<forall>e \<in> set kept. timestamp (snd r) \<le> timestamp (snd e)))"
  proof
    assume big: "100 < length ?live"
    then have ne: "?live \<noteq> []" by auto
    show "\<exists>kept. map_of ?res conversationId = Some kept \<and> length kept = 100 \<and> set kept \<subseteq> set ?live
               \<and> (\<forall>r \<in> set ?live - set kept. \<forall>e \<in> set kept. timestamp (snd r) \<le> timestamp (snd e))"
      using trim_signatures_cap [OF dl big] ne unfolding res by (intro exI [of _ "trim_signatures ?live"]) simp
  qed
  have 4: "length ?live = 101 \<longrightarrow>
            (\<exists>oldest \<in> set ?live. (\<forall>e \<in> set ?live. timestamp (snd oldest) \<le> timestamp (snd e))
               \<and> map_of ?res conversationId = Some (remove1 oldest ?live))"
  proof
    assume n: "length ?live = 101"
    then have ne: "?live \<noteq> []" by auto
    show "\<exists>oldest \<in> set ?live. (\<forall>e \<in> set ?live. timestamp (snd oldest) \<le> timestamp (snd e))
               \<and> map_of ?res conversationId = Some (remove1 oldest ?live)"
      using trim_signatures_one_over [OF dl n] ne unfolding res by auto
  qed
  have 5: "\<forall>cid. map_of store cid = None \<longrightarrow> map_of ?res cid = None"
    by (simp add: cleanupSignatures_lookup [OF store])
  show ?thesis using 1 2 3 4 5 by (intro conjI)
qed


text \<open>
  The theorem at a store swept at 3600001 ms: one conversation holds a single record of
  time 0, the other 102 records of times 0 to 101.
\<close>

theorem C3_sweep_witness:
  "map_of (cleanupSignatures 3600001
       [(''explicit:b'', [(JStr ''call_0'', \<lparr>signature = JStr ''s'', timestamp = 0\<rparr>)]),
        (''auto:a'', map (\<lambda>i. (JStr (''call_'' @ nat_to_dec (nat i)), \<lparr>signature = JStr ''s'', timestamp = i\<rparr>)) [0..101])])
     ''explicit:b'' = None
   \<and> (\<exists>kept. map_of (cleanupSignatures 3600001
       [(''explicit:b'', [(JStr ''call_0'', \<lparr>signature = JStr ''s'', timestamp = 0\<rparr>)]),
        (''auto:a'', map (\<lambda>i. (JStr (''call_'' @ nat_to_dec (nat i)), \<lparr>signature = JStr ''s'', timestamp = i\<rparr>)) [0..101])])
     ''auto:a'' = Some kept \<and> length kept = 100
     \<and> (JStr ''call_0'', \<lparr>signature = JStr ''s'', timestamp = 0\<rparr>) \<notin> set kept)"
proof -
  let ?b = "[(JStr ''call_0'', \<lparr>signature = JStr ''s'', timestamp = 0\<rparr>)]"
  let ?a = "map (\<lambda>i. (JStr (''call_'' @ nat_to_dec (nat i)), \<lparr>signature = JStr ''s'', timestamp = i\<rparr>)) [0..101]"
  let ?store = "[(''explicit:b'', ?b), (''auto:a'', ?a)]"
  let ?live = "filter (\<lambda>e. 3600001 - 3600000 \<le> timestamp (snd e)) ?a"
  have d1: "distinct (map fst ?store)" by simp
  have d2: "\<forall>(cid, m) \<in> set ?store. distinct (map fst m)" by code_simp
  have m1: "(''explicit:b'', ?b) \<in> set ?store" by simp
  have m2: "(''auto:a'', ?a) \<in> set ?store" by simp
  have e1: "filter (\<lambda>e. 3600001 - 3600000 \<le> timestamp (snd e)) ?b = []" by simp
  have e2: "100 < length ?live" by code_simp
  have e3: "(JStr ''call_0'', \<lparr>signature = JStr ''s'', timestamp = 0\<rparr>) \<notin> set ?live" by code_simp
  note b = C3_sweep [OF d1 d2 m1, of 3600001]
  note a = C3_sweep [OF d1 d2 m2, of 3600001]
  have 1: "map_of (cleanupSignatures 3600001 ?store) ''explicit:b'' = None"
    using b [THEN conjunct1] e1 by (rule mp)
  have 2: "\<exists>kept. map_of (cleanupSignatures 3600001 ?store) ''auto:a'' = Some kept \<and> length kept = 100
     \<and> (JStr ''call_0'', \<lparr>signature = JStr ''s'', timestamp = 0\<rparr>) \<notin> set kept"
  proof -
    from a [THEN conjunct2, THEN conjunct2, THEN conjunct1] e2
    obtain kept where k: "map_of (cleanupSignatures 3600001 ?store) ''auto:a'' = Some kept"
      "length kept = 100" "set kept \<subseteq> set ?live"
      by (elim impE exE conjE)
    from k(3) e3 have "(JStr ''call_0'', \<lparr>signature = JStr ''s'', timestamp = 0\<rparr>) \<notin> set kept"
      by (rule contra_subsetD)
    with k(1,2) show ?thesis by (intro exI conjI)
  qed
  show ?thesis using 1 2 by (intro conjI)
qed


section \<open>Injecting thought signatures into a request\<close>

text \<open>
  Reading a property of \<^verbatim>\<open>null\<close> and calling \<^verbatim>\<open>.map\<close> on a value that is not an array
  throw a \<^verbatim>\<open>TypeError\<close>; a throw inside a \<^verbatim>\<open>map\<close> callback ends the whole call.
\<close>

datatype js_error = TypeError

fun map_result :: "('a \<Rightarrow> js_error + 'b) \<Rightarrow> 'a list \<Rightarrow> js_error + 'b list" where
  "map_result f [] = Inr []"
| "map_result f (x # xs) =
     (case f x of
        Inl e \<Rightarrow> Inl e
      | Inr y \<Rightarrow> (case map_result f xs of Inl e \<Rightarrow> Inl e | Inr ys \<Rightarrow> Inr (y # ys)))"

text \<open>
  \<^verbatim>\<open>signaturesMap.get(toolCall.id)\<close>. A missing id is \<^verbatim>\<open>undefined\<close>, which is never a key
  (both writers store under a truthy id only). \<^verbatim>\<open>Map\<close> compares objects by identity, so an
  array or object id of a freshly parsed request finds nothing.
\<close>

fun sig_get :: "signatures_map \<Rightarrow> json option \<Rightarrow> sig_record option" where
  "sig_get signaturesMap None = None"
| "sig_get signaturesMap (Some key) = (if is_object key then None else map_of signaturesMap key)"

text \<open>The own enumerable properties that \<^verbatim>\<open>{...v}\<close> copies.\<close>

fun spread :: "json \<Rightarrow> props" where
  "spread (JObj kvs) = kvs"
| "spread (JArr xs) = zip (map nat_to_dec [0..<length xs]) xs"
| "spread (JStr s) = zip (map nat_to_dec [0..<length s]) (map (\<lambda>c. JStr [c]) s)"
| "spread v = []"

text \<open>\<^verbatim>\<open>injectThoughtSignatures\<close> (lines 283 to 323): the callbacks for a tool call and a message, and the function.\<close>

definition skip_validator :: json where
  "skip_validator = JStr ''skip_thought_signature_validator''"

definition inject_tool_call :: "signatures_map \<Rightarrow> nat \<times> json \<Rightarrow> js_error + json" where
  "inject_tool_call signaturesMap = (\<lambda>(idx, toolCall).
     if toolCall = JNull then Inl TypeError
     else
       (let signatureData = sig_get signaturesMap (get_prop toolCall ''id'');
            signature = (case signatureData of
                           Some d \<Rightarrow> if truthy (signature d) then signature d else skip_validator
                         | None \<Rightarrow> skip_validator)
        in if idx = 0
           then Inr (JObj (AList.update ''extra_content''
                        (JObj [(''google'', JObj [(''thought_signature'', signature)])])
                        (spread toolCall)))
           else Inr toolCall))"

definition inject_message :: "signatures_map \<Rightarrow> json \<Rightarrow> js_error + json" where
  "inject_message signaturesMap msg =
     (if msg = JNull then Inl TypeError
      else if get_prop msg ''role'' \<noteq> Some (JStr ''assistant'') then Inr msg
      else (case get_prop msg ''tool_calls'' of
              None \<Rightarrow> Inr msg
            | Some tool_calls \<Rightarrow>
                if \<not> truthy tool_calls then Inr msg
                else (case tool_calls of
                        JArr tcs \<Rightarrow>
                          (case map_result (inject_tool_call signaturesMap) (zip [0..<length tcs] tcs) of
                             Inl e \<Rightarrow> Inl e
                           | Inr toolCalls \<Rightarrow>
                               Inr (JObj (AList.update ''tool_calls'' (JArr toolCalls) (spread msg))))
                      | _ \<Rightarrow> Inl TypeError)))"

definition injectThoughtSignatures :: "signature_store \<Rightarrow> string \<Rightarrow> json \<Rightarrow> js_error + json" where
  "injectThoughtSignatures conversationSignatures conversationId requestData =
     (case (if requestData = JNull then None else get_prop requestData ''messages'') of
        None \<Rightarrow> Inr requestData
      | Some messages \<Rightarrow>
          if \<not> truthy messages then Inr requestData
          else
            (let signaturesMap = (case map_of conversationSignatures conversationId of
                                    Some m \<Rightarrow> m | None \<Rightarrow> [])
             in case messages of
                  JArr msgs \<Rightarrow>
                    (case map_result (inject_message signaturesMap) msgs of
                       Inl e \<Rightarrow> Inl e
                     | Inr messages' \<Rightarrow>
                         Inr (JObj (AList.update ''messages'' (JArr messages') (spread requestData))))
                | _ \<Rightarrow> Inl TypeError))"

subsection \<open>What injection returns\<close>

lemma map_result_Inr:
  "map_result f xs = Inr ys \<Longrightarrow> length ys = length xs \<and> (\<forall>i < length xs. f (xs ! i) = Inr (ys ! i))"
proof (induction xs arbitrary: ys)
  case Nil then show ?case by simp
next
  case (Cons x xs)
  from Cons.prems obtain y ys' where y: "f x = Inr y" "map_result f xs = Inr ys'" "ys = y # ys'"
    by (auto split: sum.splits)
  from Cons.IH [OF y(2)] have ih: "length ys' = length xs" "\<forall>i < length xs. f (xs ! i) = Inr (ys' ! i)"
    by auto
  show ?case
    unfolding y(3) using y(1) ih by (auto simp: nth_Cons split: nat.splits)
qed

lemma map_result_total:
  "(\<And>x. x \<in> set xs \<Longrightarrow> \<exists>y. f x = Inr y) \<Longrightarrow> \<exists>ys. map_result f xs = Inr ys"
proof (induction xs)
  case Nil then show ?case by simp
next
  case (Cons x xs)
  then obtain y ys where "f x = Inr y" "map_result f xs = Inr ys" by (metis list.set_intros)
  then show ?case by simp
qed

text \<open>A callback that throws on one element makes the whole \<^verbatim>\<open>map\<close> throw.\<close>

lemma map_result_Inl:
  "x \<in> set xs \<Longrightarrow> f x = Inl e \<Longrightarrow> map_result f xs = Inl TypeError"
proof (induction xs)
  case Nil then show ?case by simp
next
  case (Cons y ys)
  show ?case
  proof (cases "f y")
    case (Inl e')
    then show ?thesis by (cases e') simp
  next
    case (Inr z)
    with Cons.prems have "x \<in> set ys" by auto
    from Cons.IH [OF this Cons.prems(2)] Inr show ?thesis by simp
  qed
qed


text \<open>
  The token for a tool call, read off the conversation's map by the tool call's id: the
  signature of the record stored under that id; the sentinel when the tool call has no id,
  when the id is an array or object, when no record is stored under it, or when the
  stored signature is falsy.
\<close>

definition stored_token :: "signatures_map \<Rightarrow> json \<Rightarrow> json" where
  "stored_token signaturesMap toolCall =
     (case get_prop toolCall ''id'' of
        None \<Rightarrow> JStr ''skip_thought_signature_validator''
      | Some ident \<Rightarrow>
          if is_object ident then JStr ''skip_thought_signature_validator''
          else (case map_of signaturesMap ident of
                  Some d \<Rightarrow> if truthy (signature d) then signature d
                            else JStr ''skip_thought_signature_validator''
                | None \<Rightarrow> JStr ''skip_thought_signature_validator''))"

lemma inject_tool_call_result:
  assumes "toolCall \<noteq> JNull"
  shows "inject_tool_call signaturesMap (idx, toolCall) =
     Inr (if idx = 0
          then JObj (AList.update ''extra_content''
                 (JObj [(''google'', JObj [(''thought_signature'', stored_token signaturesMap toolCall)])])
                 (spread toolCall))
          else toolCall)"
  using assms
  by (auto simp: inject_tool_call_def stored_token_def skip_validator_def Let_def split: option.splits)

lemma inject_tool_call_null:
  "inject_tool_call signaturesMap (idx, JNull) = Inl TypeError"
  by (simp add: inject_tool_call_def)

lemma inject_tool_calls_result:
  assumes nn: "JNull \<notin> set tcs"
  shows "\<exists>tcs'. map_result (inject_tool_call signaturesMap) (zip [0..<length tcs] tcs) = Inr tcs'
      \<and> length tcs' = length tcs
      \<and> (tcs \<noteq> [] \<longrightarrow> tcs' ! 0 = JObj (AList.update ''extra_content''
             (JObj [(''google'', JObj [(''thought_signature'', stored_token signaturesMap (tcs ! 0))])])
             (spread (tcs ! 0))))
      \<and> (\<forall>j. 0 < j \<and> j < length tcs \<longrightarrow> tcs' ! j = tcs ! j)"
proof -
  let ?f = "inject_tool_call signaturesMap"
  let ?xs = "zip [0..<length tcs] tcs"
  have each: "?f (j, tcs ! j) = Inr (if j = 0
          then JObj (AList.update ''extra_content''
                 (JObj [(''google'', JObj [(''thought_signature'', stored_token signaturesMap (tcs ! j))])])
                 (spread (tcs ! j)))
          else tcs ! j)" if "j < length tcs" for j
    using that nn by (intro inject_tool_call_result) (metis nth_mem)
  have "\<exists>y. ?f x = Inr y" if "x \<in> set ?xs" for x
  proof -
    from that obtain j where "j < length tcs" "x = (j, tcs ! j)"
      by (auto simp: set_zip)
    then show ?thesis using each by blast
  qed
  then obtain tcs' where r: "map_result ?f ?xs = Inr tcs'"
    using map_result_total [of ?xs ?f] by blast
  from map_result_Inr [OF r] have len: "length tcs' = length tcs"
    and nth: "\<forall>j < length tcs. ?f (j, tcs ! j) = Inr (tcs' ! j)"
    by auto
  have 0: "tcs' ! 0 = JObj (AList.update ''extra_content''
             (JObj [(''google'', JObj [(''thought_signature'', stored_token signaturesMap (tcs ! 0))])])
             (spread (tcs ! 0)))" if "tcs \<noteq> []"
    using that nth each [of 0] by auto
  have rest: "tcs' ! j = tcs ! j" if "0 < j" "j < length tcs" for j
    using that nth each [of j] by auto
  show ?thesis using r len 0 rest by blast
qed

lemma inject_tool_calls_null:
  assumes "JNull \<in> set tcs"
  shows "map_result (inject_tool_call signaturesMap) (zip [0..<length tcs] tcs) = Inl TypeError"
proof -
  from assms obtain j where j: "j < length tcs" "tcs ! j = JNull"
    by (auto simp: in_set_conv_nth)
  then have "(j, JNull) \<in> set (zip [0..<length tcs] tcs)"
    by (auto simp: set_zip intro!: exI [of _ j])
  then show ?thesis
    by (rule map_result_Inl) (rule inject_tool_call_null)
qed


lemma inject_message_other:
  "msg \<noteq> JNull \<Longrightarrow>
   get_prop msg ''role'' \<noteq> Some (JStr ''assistant'')
     \<or> (\<forall>tc. get_prop msg ''tool_calls'' = Some tc \<longrightarrow> \<not> truthy tc)
   \<Longrightarrow> inject_message signaturesMap msg = Inr msg"
  by (auto simp: inject_message_def split: option.splits)

lemma inject_message_assistant:
  assumes role: "get_prop msg ''role'' = Some (JStr ''assistant'')"
    and calls: "get_prop msg ''tool_calls'' = Some (JArr tcs)"
    and nn: "JNull \<notin> set tcs"
  shows "\<exists>tcs'. inject_message signaturesMap msg = Inr (JObj (AList.update ''tool_calls'' (JArr tcs') (spread msg)))
      \<and> length tcs' = length tcs
      \<and> (tcs \<noteq> [] \<longrightarrow> tcs' ! 0 = JObj (AList.update ''extra_content''
             (JObj [(''google'', JObj [(''thought_signature'', stored_token signaturesMap (tcs ! 0))])])
             (spread (tcs ! 0))))
      \<and> (\<forall>j. 0 < j \<and> j < length tcs \<longrightarrow> tcs' ! j = tcs ! j)"
proof -
  from inject_tool_calls_result [OF nn] obtain tcs'
    where t: "map_result (inject_tool_call signaturesMap) (zip [0..<length tcs] tcs) = Inr tcs'"
      "length tcs' = length tcs"
      "tcs \<noteq> [] \<longrightarrow> tcs' ! 0 = JObj (AList.update ''extra_content''
             (JObj [(''google'', JObj [(''thought_signature'', stored_token signaturesMap (tcs ! 0))])])
             (spread (tcs ! 0)))"
      "\<forall>j. 0 < j \<and> j < length tcs \<longrightarrow> tcs' ! j = tcs ! j"
    by blast
  have "msg \<noteq> JNull" using role by auto
  then have "inject_message signaturesMap msg = Inr (JObj (AList.update ''tool_calls'' (JArr tcs') (spread msg)))"
    using role calls t(1) by (simp add: inject_message_def)
  with t(2-4) show ?thesis by blast
qed

text \<open>The messages on which the callback throws.\<close>

lemma inject_message_throws:
  assumes "msg = JNull
      \<or> (\<exists>tc. get_prop msg ''role'' = Some (JStr ''assistant'') \<and> get_prop msg ''tool_calls'' = Some tc
             \<and> truthy tc \<and> (\<forall>tcs. tc = JArr tcs \<longrightarrow> JNull \<in> set tcs))"
  shows "inject_message signaturesMap msg = Inl TypeError"
proof (cases "msg = JNull")
  case True
  then show ?thesis by (simp add: inject_message_def)
next
  case False
  with assms obtain tc where tc: "get_prop msg ''role'' = Some (JStr ''assistant'')"
    "get_prop msg ''tool_calls'' = Some tc" "truthy tc" "\<forall>tcs. tc = JArr tcs \<longrightarrow> JNull \<in> set tcs"
    by blast
  show ?thesis
  proof (cases tc)
    case (JArr tcs)
    with tc(4) have "JNull \<in> set tcs" by simp
    from inject_tool_calls_null [OF this] show ?thesis
      using False tc(1,2) JArr by (simp add: inject_message_def)
  qed (use False tc(1,2,3) in \<open>simp_all add: inject_message_def\<close>)
qed

text \<open>
  Claim C1. Take a request object whose \<^verbatim>\<open>messages\<close> is an array, and the signature map
  of its conversation (empty when the conversation has none).

  When no message is null and the truthy \<^verbatim>\<open>tool_calls\<close> of every assistant message is an
  array without null entries, injection returns the request with \<^verbatim>\<open>messages\<close> replaced by
  an array of the same length. A message that is not an assistant message, or has no
  truthy \<^verbatim>\<open>tool_calls\<close>, is returned as it is. For every assistant message with tool calls
  \<open>tcs\<close> the new message is the old one with \<^verbatim>\<open>tool_calls\<close> replaced by an array of the same length,
  whose entry 0 is tool call 0 with \<^verbatim>\<open>extra_content\<close> set to
  \<^verbatim>\<open>{google: {thought_signature: token}}\<close>; every other entry is the tool call unchanged. The
  token is the signature of the record that the map holds under the id of tool call 0;
  it is \<^verbatim>\<open>'skip_thought_signature_validator'\<close> when the tool call has no id, when the id is
  an array or object (a \<^verbatim>\<open>Map\<close> finds those by identity only), when no record is stored
  under the id, or when the stored signature is falsy (neither writer stores such a one).

  On every other request with a \<^verbatim>\<open>messages\<close> array the function throws a \<^verbatim>\<open>TypeError\<close> and
  returns nothing; the handler's \<^verbatim>\<open>catch\<close> then forwards the body as it was received.
\<close>

theorem C1_injection:
  assumes messages: "map_of requestData ''messages'' = Some (JArr msgs)"
    and conversation: "signaturesMap = (case map_of conversationSignatures conversationId of Some m \<Rightarrow> m | None \<Rightarrow> [])"
  shows "((\<forall>msg \<in> set msgs. msg \<noteq> JNull
            \<and> (\<forall>tc. get_prop msg ''role'' = Some (JStr ''assistant'') \<and> get_prop msg ''tool_calls'' = Some tc \<and> truthy tc
                   \<longrightarrow> (\<exists>tcs. tc = JArr tcs \<and> JNull \<notin> set tcs)))
      \<longrightarrow> (\<exists>msgs'.
            injectThoughtSignatures conversationSignatures conversationId (JObj requestData)
              = Inr (JObj (AList.update ''messages'' (JArr msgs') requestData))
          \<and> length msgs' = length msgs
          \<and> (\<forall>i < length msgs.
                get_prop (msgs ! i) ''role'' \<noteq> Some (JStr ''assistant'')
                  \<or> (\<forall>tc. get_prop (msgs ! i) ''tool_calls'' = Some tc \<longrightarrow> \<not> truthy tc)
                \<longrightarrow> msgs' ! i = msgs ! i)
          \<and> (\<forall>i < length msgs. \<forall>tcs.
                get_prop (msgs ! i) ''role'' = Some (JStr ''assistant'') \<and> get_prop (msgs ! i) ''tool_calls'' = Some (JArr tcs)
                \<longrightarrow> (\<exists>tcs'. msgs' ! i = JObj (AList.update ''tool_calls'' (JArr tcs') (spread (msgs ! i)))
                       \<and> length tcs' = length tcs
                       \<and> (tcs \<noteq> [] \<longrightarrow>
                            tcs' ! 0 = JObj (AList.update ''extra_content''
                              (JObj [(''google'', JObj [(''thought_signature'',
                                 (case get_prop (tcs ! 0) ''id'' of
                                    None \<Rightarrow> JStr ''skip_thought_signature_validator''
                                  | Some ident \<Rightarrow>
                                      if is_object ident then JStr ''skip_thought_signature_validator''
                                      else (case map_of signaturesMap ident of
                                              Some d \<Rightarrow> if truthy (signature d) then signature d
                                                        else JStr ''skip_thought_signature_validator''
                                            | None \<Rightarrow> JStr ''skip_thought_signature_validator'')))])])
                              (spread (tcs ! 0))))
                       \<and> (\<forall>j. 0 < j \<and> j < length tcs \<longrightarrow> tcs' ! j = tcs ! j)))))
    \<and> (\<not> (\<forall>msg \<in> set msgs. msg \<noteq> JNull
            \<and> (\<forall>tc. get_prop msg ''role'' = Some (JStr ''assistant'') \<and> get_prop msg ''tool_calls'' = Some tc \<and> truthy tc
                   \<longrightarrow> (\<exists>tcs. tc = JArr tcs \<and> JNull \<notin> set tcs)))
      \<longrightarrow> injectThoughtSignatures conversationSignatures conversationId (JObj requestData) = Inl TypeError)"
proof (intro conjI impI)
  assume shape: "\<forall>msg \<in> set msgs. msg \<noteq> JNull
            \<and> (\<forall>tc. get_prop msg ''role'' = Some (JStr ''assistant'') \<and> get_prop msg ''tool_calls'' = Some tc \<and> truthy tc
                   \<longrightarrow> (\<exists>tcs. tc = JArr tcs \<and> JNull \<notin> set tcs))"
  let ?f = "inject_message signaturesMap"
  have nn: "JNull \<notin> set tcs"
    if "msg \<in> set msgs" "get_prop msg ''role'' = Some (JStr ''assistant'')"
       "get_prop msg ''tool_calls'' = Some (JArr tcs)" for msg tcs
  proof -
    have "truthy (JArr tcs)" by simp
    with shape that obtain tcs0 where "JArr tcs = JArr tcs0" "JNull \<notin> set tcs0" by blast
    then show ?thesis by simp
  qed
  have total: "\<exists>y. ?f msg = Inr y" if "msg \<in> set msgs" for msg
  proof (cases "get_prop msg ''role'' = Some (JStr ''assistant'')
                  \<and> (\<exists>tc. get_prop msg ''tool_calls'' = Some tc \<and> truthy tc)")
    case True
    then obtain tc where a: "get_prop msg ''role'' = Some (JStr ''assistant'')"
      "get_prop msg ''tool_calls'' = Some tc" "truthy tc" by blast
    with shape that obtain tcs where tcs: "tc = JArr tcs" by blast
    have "JNull \<notin> set tcs" using nn [OF that a(1)] a(2) tcs by simp
    from inject_message_assistant [OF a(1) a(2) [unfolded tcs] this] show ?thesis by blast
  next
    case False
    have "msg \<noteq> JNull" using shape that by blast
    then have "?f msg = Inr msg" using False by (intro inject_message_other) auto
    then show ?thesis by blast
  qed
  then obtain msgs' where r: "map_result ?f msgs = Inr msgs'"
    using map_result_total [of msgs ?f] by blast
  from map_result_Inr [OF r] have len: "length msgs' = length msgs"
    and nth: "\<forall>i < length msgs. ?f (msgs ! i) = Inr (msgs' ! i)"
    by auto
  have res: "injectThoughtSignatures conversationSignatures conversationId (JObj requestData)
        = Inr (JObj (AList.update ''messages'' (JArr msgs') requestData))"
    using messages r by (simp add: injectThoughtSignatures_def conversation [symmetric])
  have other: "msgs' ! i = msgs ! i"
    if i: "i < length msgs"
      and no: "get_prop (msgs ! i) ''role'' \<noteq> Some (JStr ''assistant'')
                 \<or> (\<forall>tc. get_prop (msgs ! i) ''tool_calls'' = Some tc \<longrightarrow> \<not> truthy tc)" for i
  proof -
    have "msgs ! i \<in> set msgs" using i by simp
    then have "msgs ! i \<noteq> JNull" using shape by blast
    then have "?f (msgs ! i) = Inr (msgs ! i)" using no by (rule inject_message_other)
    then show ?thesis using nth i by simp
  qed
  have each: "\<exists>tcs'. msgs' ! i = JObj (AList.update ''tool_calls'' (JArr tcs') (spread (msgs ! i)))
                 \<and> length tcs' = length tcs
                 \<and> (tcs \<noteq> [] \<longrightarrow>
                      tcs' ! 0 = JObj (AList.update ''extra_content''
                        (JObj [(''google'', JObj [(''thought_signature'',
                           (case get_prop (tcs ! 0) ''id'' of
                              None \<Rightarrow> JStr ''skip_thought_signature_validator''
                            | Some ident \<Rightarrow>
                                if is_object ident then JStr ''skip_thought_signature_validator''
                                else (case map_of signaturesMap ident of
                                        Some d \<Rightarrow> if truthy (signature d) then signature d
                                                  else JStr ''skip_thought_signature_validator''
                                      | None \<Rightarrow> JStr ''skip_thought_signature_validator'')))])])
                        (spread (tcs ! 0))))
                 \<and> (\<forall>j. 0 < j \<and> j < length tcs \<longrightarrow> tcs' ! j = tcs ! j)"
    if i: "i < length msgs" and role: "get_prop (msgs ! i) ''role'' = Some (JStr ''assistant'')"
      and calls: "get_prop (msgs ! i) ''tool_calls'' = Some (JArr tcs)" for i tcs
  proof -
    have "msgs ! i \<in> set msgs" using i by simp
    then have "JNull \<notin> set tcs" using role calls by (rule nn)
    from inject_message_assistant [OF role calls this, unfolded stored_token_def]
    obtain tcs' where t:
      "inject_message signaturesMap (msgs ! i) = Inr (JObj (AList.update ''tool_calls'' (JArr tcs') (spread (msgs ! i))))"
      "length tcs' = length tcs"
      "tcs \<noteq> [] \<longrightarrow>
          tcs' ! 0 = JObj (AList.update ''extra_content''
            (JObj [(''google'', JObj [(''thought_signature'',
               (case get_prop (tcs ! 0) ''id'' of
                  None \<Rightarrow> JStr ''skip_thought_signature_validator''
                | Some ident \<Rightarrow>
                    if is_object ident then JStr ''skip_thought_signature_validator''
                    else (case map_of signaturesMap ident of
                            Some d \<Rightarrow> if truthy (signature d) then signature d
                                      else JStr ''skip_thought_signature_validator''
                          | None \<Rightarrow> JStr ''skip_thought_signature_validator'')))])])
            (spread (tcs ! 0)))"
      "\<forall>j. 0 < j \<and> j < length tcs \<longrightarrow> tcs' ! j = tcs ! j"
      by blast
    have "msgs' ! i = JObj (AList.update ''tool_calls'' (JArr tcs') (spread (msgs ! i)))"
      using nth i t(1) by simp
    with t(2-4) show ?thesis by blast
  qed
  show "\<exists>msgs'.
            injectThoughtSignatures conversationSignatures conversationId (JObj requestData)
              = Inr (JObj (AList.update ''messages'' (JArr msgs') requestData))
          \<and> length msgs' = length msgs
          \<and> (\<forall>i < length msgs.
                get_prop (msgs ! i) ''role'' \<noteq> Some (JStr ''assistant'')
                  \<or> (\<forall>tc. get_prop (msgs ! i) ''tool_calls'' = Some tc \<longrightarrow> \<not> truthy tc)
                \<longrightarrow> msgs' ! i = msgs ! i)
          \<and> (\<forall>i < length msgs. \<forall>tcs.
                get_prop (msgs ! i) ''role'' = Some (JStr ''assistant'') \<and> get_prop (msgs ! i) ''tool_calls'' = Some (JArr tcs)
                \<longrightarrow> (\<exists>tcs'. msgs' ! i = JObj (AList.update ''tool_calls'' (JArr tcs') (spread (msgs ! i)))
                       \<and> length tcs' = length tcs
                       \<and> (tcs \<noteq> [] \<longrightarrow>
                            tcs' ! 0 = JObj (AList.update ''extra_content''
                              (JObj [(''google'', JObj [(''thought_signature'',
                                 (case get_prop (tcs ! 0) ''id'' of
                                    None \<Rightarrow> JStr ''skip_thought_signature_validator''
                                  | Some ident \<Rightarrow>
                                      if is_object ident then JStr ''skip_thought_signature_validator''
                                      else (case map_of signaturesMap ident of
                                              Some d \<Rightarrow> if truthy (signature d) then signature d
                                                        else JStr ''skip_thought_signature_validator''
                                            | None \<Rightarrow> JStr ''skip_thought_signature_validator'')))])])
                              (spread (tcs ! 0))))
                       \<and> (\<forall>j. 0 < j \<and> j < length tcs \<longrightarrow> tcs' ! j = tcs ! j)))"
    using res len other each by blast
next
  assume "\<not> (\<forall>msg \<in> set msgs. msg \<noteq> JNull
            \<and> (\<forall>tc. get_prop msg ''role'' = Some (JStr ''assistant'') \<and> get_prop msg ''tool_calls'' = Some tc \<and> truthy tc
                   \<longrightarrow> (\<exists>tcs. tc = JArr tcs \<and> JNull \<notin> set tcs)))"
  then obtain msg where msg: "msg \<in> set msgs"
    and bad: "msg = JNull
      \<or> (\<exists>tc. get_prop msg ''role'' = Some (JStr ''assistant'') \<and> get_prop msg ''tool_calls'' = Some tc
             \<and> truthy tc \<and> (\<forall>tcs. tc = JArr tcs \<longrightarrow> JNull \<in> set tcs))"
    by blast
  from bad have "inject_message signaturesMap msg = Inl TypeError"
    by (rule inject_message_throws)
  with msg have "map_result (inject_message signaturesMap) msgs = Inl TypeError"
    by (rule map_result_Inl)
  then show "injectThoughtSignatures conversationSignatures conversationId (JObj requestData) = Inl TypeError"
    using messages by (simp add: injectThoughtSignatures_def conversation [symmetric])
qed


text \<open>
  The theorem at the example of the specification, with the order of the tool calls
  turned round: the conversation holds a record for \<open>A\<close> and one for \<open>B\<close> (another
  conversation holds a different one for \<open>B\<close>); the first assistant message calls \<open>B\<close> and
  then \<open>A\<close>, the second calls \<open>C\<close>, for which nothing is stored. And at a request whose
  assistant message has a string for its tool calls.
\<close>

theorem C1_injection_witness:
  "(\<exists>msgs'. injectThoughtSignatures
        [(''explicit:x'', [(JStr ''B'', \<lparr>signature = JStr ''tokX'', timestamp = 3\<rparr>)]),
         (''auto:1f'', [(JStr ''A'', \<lparr>signature = JStr ''tokA'', timestamp = 5\<rparr>),
                        (JStr ''B'', \<lparr>signature = JStr ''tokB'', timestamp = 6\<rparr>)])] ''auto:1f''
        (JObj [(''model'', JStr ''gemini-3''),
               (''messages'', JArr [JObj [(''role'', JStr ''user''), (''content'', JStr ''hi'')],
                                    JObj [(''role'', JStr ''assistant''),
                                          (''tool_calls'', JArr [JObj [(''id'', JStr ''B''), (''type'', JStr ''function'')],
                                                                 JObj [(''id'', JStr ''A''), (''type'', JStr ''function'')]])],
                                    JObj [(''role'', JStr ''assistant''),
                                          (''tool_calls'', JArr [JObj [(''id'', JStr ''C'')]])]])])
      = Inr (JObj [(''model'', JStr ''gemini-3''), (''messages'', JArr msgs')])
    \<and> length msgs' = 3
    \<and> msgs' ! 0 = JObj [(''role'', JStr ''user''), (''content'', JStr ''hi'')]
    \<and> (\<exists>tcs'. msgs' ! 1 = JObj [(''role'', JStr ''assistant''), (''tool_calls'', JArr tcs')]
         \<and> length tcs' = 2
         \<and> tcs' ! 0 = JObj [(''id'', JStr ''B''), (''type'', JStr ''function''),
                            (''extra_content'', JObj [(''google'', JObj [(''thought_signature'', JStr ''tokB'')])])]
         \<and> tcs' ! 1 = JObj [(''id'', JStr ''A''), (''type'', JStr ''function'')])
    \<and> (\<exists>tcs'. msgs' ! 2 = JObj [(''role'', JStr ''assistant''), (''tool_calls'', JArr tcs')]
         \<and> length tcs' = 1
         \<and> tcs' ! 0 = JObj [(''id'', JStr ''C''),
                            (''extra_content'', JObj [(''google'', JObj [(''thought_signature'',
                                JStr ''skip_thought_signature_validator'')])])]))
   \<and> injectThoughtSignatures
        [(''explicit:x'', [(JStr ''B'', \<lparr>signature = JStr ''tokX'', timestamp = 3\<rparr>)]),
         (''auto:1f'', [(JStr ''A'', \<lparr>signature = JStr ''tokA'', timestamp = 5\<rparr>),
                        (JStr ''B'', \<lparr>signature = JStr ''tokB'', timestamp = 6\<rparr>)])] ''auto:1f''
        (JObj [(''messages'', JArr [JObj [(''role'', JStr ''assistant''), (''tool_calls'', JStr ''B'')]])])
      = Inl TypeError"
proof -
  let ?m = "[(JStr ''A'', \<lparr>signature = JStr ''tokA'', timestamp = 5\<rparr>),
             (JStr ''B'', \<lparr>signature = JStr ''tokB'', timestamp = 6\<rparr>)]"
  let ?store = "[(''explicit:x'', [(JStr ''B'', \<lparr>signature = JStr ''tokX'', timestamp = 3\<rparr>)]),
                 (''auto:1f'', ?m)]"
  let ?tcs = "[JObj [(''id'', JStr ''B''), (''type'', JStr ''function'')],
               JObj [(''id'', JStr ''A''), (''type'', JStr ''function'')]]"
  let ?tcs2 = "[JObj [(''id'', JStr ''C'')]]"
  let ?msgs = "[JObj [(''role'', JStr ''user''), (''content'', JStr ''hi'')],
                JObj [(''role'', JStr ''assistant''), (''tool_calls'', JArr ?tcs)],
                JObj [(''role'', JStr ''assistant''), (''tool_calls'', JArr ?tcs2)]]"
  let ?req = "[(''model'', JStr ''gemini-3''), (''messages'', JArr ?msgs)]"
  have h1: "map_of ?req ''messages'' = Some (JArr ?msgs)" by simp
  have h2: "\<forall>msg \<in> set ?msgs. msg \<noteq> JNull
          \<and> (\<forall>tc. get_prop msg ''role'' = Some (JStr ''assistant'') \<and> get_prop msg ''tool_calls'' = Some tc \<and> truthy tc
                 \<longrightarrow> (\<exists>tcs. tc = JArr tcs \<and> JNull \<notin> set tcs))"
    by simp
  have h3: "?m = (case map_of ?store ''auto:1f'' of Some m \<Rightarrow> m | None \<Rightarrow> [])" by simp
  from C1_injection [OF h1 h3, THEN conjunct1, THEN mp, OF h2] obtain msgs' where
    r: "injectThoughtSignatures ?store ''auto:1f'' (JObj ?req)
          = Inr (JObj (AList.update ''messages'' (JArr msgs') ?req))"
    and len: "length msgs' = length ?msgs"
    and other: "\<forall>i < length ?msgs.
          get_prop (?msgs ! i) ''role'' \<noteq> Some (JStr ''assistant'')
            \<or> (\<forall>tc. get_prop (?msgs ! i) ''tool_calls'' = Some tc \<longrightarrow> \<not> truthy tc)
          \<longrightarrow> msgs' ! i = ?msgs ! i"
    and each: "\<forall>i < length ?msgs. \<forall>tcs.
          get_prop (?msgs ! i) ''role'' = Some (JStr ''assistant'') \<and> get_prop (?msgs ! i) ''tool_calls'' = Some (JArr tcs)
          \<longrightarrow> (\<exists>tcs'. msgs' ! i = JObj (AList.update ''tool_calls'' (JArr tcs') (spread (?msgs ! i)))
                 \<and> length tcs' = length tcs
                 \<and> (tcs \<noteq> [] \<longrightarrow>
                      tcs' ! 0 = JObj (AList.update ''extra_content''
                        (JObj [(''google'', JObj [(''thought_signature'',
                           (case get_prop (tcs ! 0) ''id'' of
                              None \<Rightarrow> JStr ''skip_thought_signature_validator''
                            | Some ident \<Rightarrow>
                                if is_object ident then JStr ''skip_thought_signature_validator''
                                else (case map_of ?m ident of
                                        Some d \<Rightarrow> if truthy (signature d) then signature d
                                                  else JStr ''skip_thought_signature_validator''
                                      | None \<Rightarrow> JStr ''skip_thought_signature_validator'')))])])
                        (spread (tcs ! 0))))
                 \<and> (\<forall>j. 0 < j \<and> j < length tcs \<longrightarrow> tcs' ! j = tcs ! j))"
    by blast
  from each [rule_format, of 1 ?tcs] obtain tcs' where
    t: "msgs' ! 1 = JObj (AList.update ''tool_calls'' (JArr tcs') (spread (?msgs ! 1)))"
       "length tcs' = length ?tcs"
       "tcs' ! 0 = JObj [(''id'', JStr ''B''), (''type'', JStr ''function''),
                         (''extra_content'', JObj [(''google'', JObj [(''thought_signature'', JStr ''tokB'')])])]"
       "\<forall>j. 0 < j \<and> j < length ?tcs \<longrightarrow> tcs' ! j = ?tcs ! j"
    by auto
  from t(4) have t1: "tcs' ! 1 = ?tcs ! 1" by simp
  from each [rule_format, of 2 ?tcs2] obtain tcs2' where
    u: "msgs' ! 2 = JObj (AList.update ''tool_calls'' (JArr tcs2') (spread (?msgs ! 2)))"
       "length tcs2' = length ?tcs2"
       "tcs2' ! 0 = JObj [(''id'', JStr ''C''),
                          (''extra_content'', JObj [(''google'', JObj [(''thought_signature'',
                              JStr ''skip_thought_signature_validator'')])])]"
    by auto
  have a: "\<exists>tcs'. msgs' ! 1 = JObj [(''role'', JStr ''assistant''), (''tool_calls'', JArr tcs')]
         \<and> length tcs' = 2
         \<and> tcs' ! 0 = JObj [(''id'', JStr ''B''), (''type'', JStr ''function''),
                            (''extra_content'', JObj [(''google'', JObj [(''thought_signature'', JStr ''tokB'')])])]
         \<and> tcs' ! 1 = JObj [(''id'', JStr ''A''), (''type'', JStr ''function'')]"
    using t(1,2,3) t1 by (intro exI [of _ tcs'] conjI) simp_all
  have b: "\<exists>tcs'. msgs' ! 2 = JObj [(''role'', JStr ''assistant''), (''tool_calls'', JArr tcs')]
         \<and> length tcs' = 1
         \<and> tcs' ! 0 = JObj [(''id'', JStr ''C''),
                            (''extra_content'', JObj [(''google'', JObj [(''thought_signature'',
                                JStr ''skip_thought_signature_validator'')])])]"
    using u by (intro exI [of _ tcs2'] conjI) simp_all
  have c: "injectThoughtSignatures ?store ''auto:1f'' (JObj ?req)
      = Inr (JObj [(''model'', JStr ''gemini-3''), (''messages'', JArr msgs')])"
    using r by simp
  have d: "length msgs' = 3" using len by simp
  have e: "msgs' ! 0 = JObj [(''role'', JStr ''user''), (''content'', JStr ''hi'')]"
    using other [rule_format, of 0] by simp
  let ?bad = "[JObj [(''role'', JStr ''assistant''), (''tool_calls'', JStr ''B'')]]"
  have g1: "map_of [(''messages'', JArr ?bad)] ''messages'' = Some (JArr ?bad)" by simp
  have g2: "\<not> (\<forall>msg \<in> set ?bad. msg \<noteq> JNull
          \<and> (\<forall>tc. get_prop msg ''role'' = Some (JStr ''assistant'') \<and> get_prop msg ''tool_calls'' = Some tc \<and> truthy tc
                 \<longrightarrow> (\<exists>tcs. tc = JArr tcs \<and> JNull \<notin> set tcs)))"
    by simp
  from C1_injection [OF g1 h3, THEN conjunct2, THEN mp, OF g2]
  have f: "injectThoughtSignatures ?store ''auto:1f'' (JObj [(''messages'', JArr ?bad)]) = Inl TypeError" .
  have "\<exists>msgs'. (injectThoughtSignatures ?store ''auto:1f'' (JObj ?req)
      = Inr (JObj [(''model'', JStr ''gemini-3''), (''messages'', JArr msgs')])
    \<and> length msgs' = 3
    \<and> msgs' ! 0 = JObj [(''role'', JStr ''user''), (''content'', JStr ''hi'')]
    \<and> (\<exists>tcs'. msgs' ! 1 = JObj [(''role'', JStr ''assistant''), (''tool_calls'', JArr tcs')]
         \<and> length tcs' = 2
         \<and> tcs' ! 0 = JObj [(''id'', JStr ''B''), (''type'', JStr ''function''),
                            (''extra_content'', JObj [(''google'', JObj [(''thought_signature'', JStr ''tokB'')])])]
         \<and> tcs' ! 1 = JObj [(''id'', JStr ''A''), (''type'', JStr ''function'')])
    \<and> (\<exists>tcs'. msgs' ! 2 = JObj [(''role'', JStr ''assistant''), (''tool_calls'', JArr tcs')]
         \<and> length tcs' = 1
         \<and> tcs' ! 0 = JObj [(''id'', JStr ''C''),
                            (''extra_content'', JObj [(''google'', JObj [(''thought_signature'',
                                JStr ''skip_thought_signature_validator'')])])]))"
    apply (rule exI [of _ msgs'])
    apply (rule conjI, rule c)
    apply (rule conjI, rule d)
    apply (rule conjI, rule e)
    apply (rule conjI, rule a)
    apply (rule b)
    done
  then show ?thesis using f by (rule conjI)
qed

text \<open>
  The claim says this of every request with a \<^verbatim>\<open>messages\<close> array. With a null message, or a
  null entry after the first tool call, the function throws and no tool call is rewritten:
  the request goes upstream as it came, the tool call \<open>A\<close> without a token although one
  is stored.
\<close>

theorem C1_null_entry_counterexample:
  "injectThoughtSignatures
        [(''auto:1f'', [(JStr ''A'', \<lparr>signature = JStr ''tokA'', timestamp = 5\<rparr>)])] ''auto:1f''
        (JObj [(''messages'', JArr [JObj [(''role'', JStr ''assistant''),
                                          (''tool_calls'', JArr [JObj [(''id'', JStr ''A'')]])],
                                    JNull])])
      = Inl TypeError
   \<and> injectThoughtSignatures
        [(''auto:1f'', [(JStr ''A'', \<lparr>signature = JStr ''tokA'', timestamp = 5\<rparr>)])] ''auto:1f''
        (JObj [(''messages'', JArr [JObj [(''role'', JStr ''assistant''),
                                          (''tool_calls'', JArr [JObj [(''id'', JStr ''A'')], JNull])]])])
      = Inl TypeError"
  by code_simp

section \<open>Accumulating tool calls from streaming chunks\<close>

text \<open>
  \<^verbatim>\<open>String(v)\<close> for a JSON value, which is what \<^verbatim>\<open>+=\<close> on a string and a computed
  property name apply: an array joins its elements with commas (null as the empty string),
  a plain object is \<^verbatim>\<open>[object Object]\<close>. An integer of magnitude up to \<open>2\<^sup>5\<^sup>3\<close> is spelled in
  decimal. A larger number is spelled from the digits of its nearest double, in exponent
  form from \<open>10\<^sup>2\<^sup>1\<close> on (\<^verbatim>\<open>String(1e21)\<close> is \<^verbatim>\<open>1e+21\<close>); that spelling is not modelled, and
  the result is \<open>None\<close> there.
\<close>

fun join_comma :: "string list \<Rightarrow> string" where
  "join_comma [] = []"
| "join_comma [s] = s"
| "join_comma (s # t # ss) = s @ '','' @ join_comma (t # ss)"

fun js_to_string :: "json \<Rightarrow> string option" where
  "js_to_string JNull = Some ''null''"
| "js_to_string (JBool b) = Some (if b then ''true'' else ''false'')"
| "js_to_string (JNum n) =
     (if \<bar>n\<bar> \<le> 2 ^ 53
      then Some (if n < 0 then ''-'' @ nat_to_dec (nat (- n)) else nat_to_dec (nat n))
      else None)"
| "js_to_string (JStr s) = Some s"
| "js_to_string (JArr xs) =
     map_option join_comma (those (map (\<lambda>x. if x = JNull then Some [] else js_to_string x) xs))"
| "js_to_string (JObj kvs) = Some ''[object Object]''"




text \<open>
  A slot \<^verbatim>\<open>{id, function: {name, arguments}, extra_content}\<close> of \<^verbatim>\<open>accumulatedToolCalls\<close>,
  the object that maps the property key of an index to its slot, and the calls
  \<^verbatim>\<open>signaturesMap.set(accumulated.id, {signature, timestamp})\<close> made so far, in order.
\<close>

record tool_call_slot =
  slot_id :: json
  slot_name :: json
  slot_arguments :: string
  slot_extra_content :: json













subsection \<open>What a later event can do to a slot\<close>


















subsection \<open>The events of a stream\<close>





definition event_id :: "json \<Rightarrow> json option" where
  "event_id e = (case get_prop e ''id'' of Some i \<Rightarrow> if truthy i then Some i else None | None \<Rightarrow> None)"

definition event_fragment :: "json \<Rightarrow> string" where
  "event_fragment e =
     (case get_prop e ''function'' of
        Some fn \<Rightarrow>
          (case get_prop fn ''arguments'' of
             Some a \<Rightarrow> if truthy a then (case js_to_string a of Some s \<Rightarrow> s | None \<Rightarrow> []) else []
           | None \<Rightarrow> [])
      | None \<Rightarrow> [])"

definition event_extra_content :: "json \<Rightarrow> json option" where
  "event_extra_content e =
     (case get_prop e ''extra_content'' of Some x \<Rightarrow> if truthy x then Some x else None | None \<Rightarrow> None)"

text \<open>
  A slot after a list of events for it: the fragments appended in order, the id and the
  \<^verbatim>\<open>extra_content\<close> those of the last event that carries one. An accumulator after a list
  of events: every slot after the events for its key, a slot being created at the first.
\<close>

definition slot_after :: "tool_call_slot \<Rightarrow> json list \<Rightarrow> tool_call_slot \<Rightarrow> bool" where
  "slot_after slot es slot' \<longleftrightarrow>
     slot_arguments slot' = slot_arguments slot @ concat (map event_fragment es)
   \<and> slot_id slot' = last (slot_id slot # List.map_filter event_id es)
   \<and> slot_extra_content slot' = last (slot_extra_content slot # List.map_filter event_extra_content es)"




lemma slot_after_Nil: "slot_after s [] s"
  by (simp add: slot_after_def List.map_filter_simps)



























section \<open>Translating an upstream error body\<close>

text \<open>
  \<^verbatim>\<open>convertGeminiErrorToOpenAI\<close> (lines 256 to 280). \<^verbatim>\<open>a || b\<close> on a property that may be
  missing:
\<close>

definition or_else :: "json option \<Rightarrow> json \<Rightarrow> json" where
  "or_else v d = (case v of Some x \<Rightarrow> if truthy x then x else d | None \<Rightarrow> d)"

text \<open>
  The object handed to \<^verbatim>\<open>JSON.stringify\<close>, when the \<^verbatim>\<open>try\<close> block gets that far. Reading
  \<^verbatim>\<open>data.error\<close> of \<^verbatim>\<open>null\<close> throws, and the \<^verbatim>\<open>catch\<close> returns the body as it is, like
  the path without an error object.
\<close>

definition openai_error :: "json \<Rightarrow> json option" where
  "openai_error data =
     (if data = JNull then None
      else case get_prop data ''error'' of
             Some geminiError \<Rightarrow>
               if truthy geminiError \<and> is_object geminiError
               then Some (JObj [(''error'', JObj
                      [(''message'', or_else (get_prop geminiError ''message'') (JStr ''Unknown error'')),
                       (''type'', or_else (get_prop geminiError ''status'') (JStr ''api_error'')),
                       (''code'', or_else (get_prop geminiError ''code'') JNull)])])
               else None
           | None \<Rightarrow> None)"

text \<open>
  \<^verbatim>\<open>JSON.parse\<close> and \<^verbatim>\<open>JSON.stringify\<close> are the language's own; they are parameters here,
  \<open>parse\<close> returning \<open>None\<close> where \<^verbatim>\<open>JSON.parse\<close> throws.
\<close>

definition convertGeminiErrorToOpenAI ::
    "(string \<Rightarrow> json option) \<Rightarrow> (json \<Rightarrow> string) \<Rightarrow> string \<Rightarrow> string" where
  "convertGeminiErrorToOpenAI parse stringify responseData =
     (case parse responseData of
        None \<Rightarrow> responseData
      | Some data \<Rightarrow>
          (case openai_error data of
             Some converted \<Rightarrow> stringify converted
           | None \<Rightarrow> responseData))"

text \<open>
  Claim C9, as the code has it. A body that does not parse is returned unchanged. A body
  that parses to a value whose \<^verbatim>\<open>error\<close> is an object (or an array) is rewritten to
  \<^verbatim>\<open>{error: {message, type, code}}\<close>, where \<^verbatim>\<open>message\<close> is the upstream message or
  \<^verbatim>\<open>'Unknown error'\<close>, \<^verbatim>\<open>type\<close> is the upstream status or \<^verbatim>\<open>'api_error'\<close>, and \<^verbatim>\<open>code\<close> is the
  upstream code or \<^verbatim>\<open>null\<close>, the default standing in whenever the upstream field is missing or
  falsy. A body that parses to anything else is returned unchanged. The example of the
  specification holds.
\<close>

theorem C9_error_translation:
  "(parse body = None \<longrightarrow> convertGeminiErrorToOpenAI parse stringify body = body)
 \<and> (parse body = Some data \<and> data \<noteq> JNull \<and> get_prop data ''error'' = Some e \<and> truthy e \<and> is_object e \<longrightarrow>
      convertGeminiErrorToOpenAI parse stringify body =
        stringify (JObj [(''error'', JObj
          [(''message'', (case get_prop e ''message'' of
                            Some m \<Rightarrow> if truthy m then m else JStr ''Unknown error''
                          | None \<Rightarrow> JStr ''Unknown error'')),
           (''type'', (case get_prop e ''status'' of
                         Some s \<Rightarrow> if truthy s then s else JStr ''api_error''
                       | None \<Rightarrow> JStr ''api_error'')),
           (''code'', (case get_prop e ''code'' of
                         Some c \<Rightarrow> if truthy c then c else JNull
                       | None \<Rightarrow> JNull))])]))
 \<and> (parse body = Some data \<and>
      (data = JNull \<or> get_prop data ''error'' = None
       \<or> (\<exists>e. get_prop data ''error'' = Some e \<and> \<not> (truthy e \<and> is_object e))) \<longrightarrow>
      convertGeminiErrorToOpenAI parse stringify body = body)
 \<and> (parse body = Some (JObj [(''error'', JObj [(''code'', JNum 400), (''message'', JStr ''bad''),
                                                 (''status'', JStr ''INVALID_ARGUMENT'')])]) \<longrightarrow>
      convertGeminiErrorToOpenAI parse stringify body =
        stringify (JObj [(''error'', JObj [(''message'', JStr ''bad''), (''type'', JStr ''INVALID_ARGUMENT''),
                                           (''code'', JNum 400)])]))"
  by (auto simp: convertGeminiErrorToOpenAI_def openai_error_def or_else_def split: option.splits)

text \<open>The theorem at a parser that knows one upstream body, for any serializer.\<close>

theorem C9_error_translation_witness:
  "\<forall>stringify.
     convertGeminiErrorToOpenAI
       (\<lambda>s. if s = ''upstream 400 body''
            then Some (JObj [(''error'', JObj [(''code'', JNum 400), (''message'', JStr ''bad''),
                                               (''status'', JStr ''INVALID_ARGUMENT'')])])
            else None)
       stringify ''upstream 400 body''
     = stringify (JObj [(''error'', JObj [(''message'', JStr ''bad''), (''type'', JStr ''INVALID_ARGUMENT''),
                                          (''code'', JNum 400)])])
   \<and> convertGeminiErrorToOpenAI
       (\<lambda>s. if s = ''upstream 400 body''
            then Some (JObj [(''error'', JObj [(''code'', JNum 400), (''message'', JStr ''bad''),
                                               (''status'', JStr ''INVALID_ARGUMENT'')])])
            else None)
       stringify ''<html>502</html>'' = ''<html>502</html>''"
proof (intro allI conjI)
  fix stringify :: "json \<Rightarrow> string"
  let ?parse = "\<lambda>s. if s = ''upstream 400 body''
            then Some (JObj [(''error'', JObj [(''code'', JNum 400), (''message'', JStr ''bad''),
                                               (''status'', JStr ''INVALID_ARGUMENT'')])])
            else None"
  have p: "?parse ''upstream 400 body'' = Some (JObj [(''error'', JObj [(''code'', JNum 400), (''message'', JStr ''bad''),
                                               (''status'', JStr ''INVALID_ARGUMENT'')])])"
    by simp
  from C9_error_translation [of ?parse "''upstream 400 body''" stringify, THEN conjunct2, THEN conjunct2, THEN conjunct2] p
  show "convertGeminiErrorToOpenAI ?parse stringify ''upstream 400 body''
     = stringify (JObj [(''error'', JObj [(''message'', JStr ''bad''), (''type'', JStr ''INVALID_ARGUMENT''),
                                          (''code'', JNum 400)])])"
    by (rule mp)
  have n: "?parse ''<html>502</html>'' = None" by simp
  from C9_error_translation [of ?parse "''<html>502</html>''" stringify, THEN conjunct1] n
  show "convertGeminiErrorToOpenAI ?parse stringify ''<html>502</html>'' = ''<html>502</html>''"
    by (rule mp)
qed

text \<open>
  The claim as written passes the code through. \<^verbatim>\<open>geminiError.code || null\<close> turns a code
  of \<^verbatim>\<open>0\<close> into \<^verbatim>\<open>null\<close>.
\<close>

theorem C9_code_zero_counterexample:
  "openai_error (JObj [(''error'', JObj [(''code'', JNum 0), (''message'', JStr ''bad''),
                                         (''status'', JStr ''INVALID_ARGUMENT'')])])
     = Some (JObj [(''error'', JObj [(''message'', JStr ''bad''), (''type'', JStr ''INVALID_ARGUMENT''),
                                     (''code'', JNull)])])"
  by code_simp

section \<open>Requests with retries\<close>

text \<open>
  A number that the retry loop computes: \<^verbatim>\<open>NaN\<close>, an integer of magnitude up to \<open>2\<^sup>5\<^sup>3\<close>
  (every such integer is a number of JavaScript, and sums and products of them that stay
  in this range are exact), or a number beyond that range, where the code holds the
  nearest double; the value of such a rounded number is not modelled.
\<close>

datatype js_number = NaN | Integer int | Rounded

definition js_number_of :: "int \<Rightarrow> js_number" where
  "js_number_of n = (if \<bar>n\<bar> \<le> 2 ^ 53 then Integer n else Rounded)"

definition js_times :: "js_number \<Rightarrow> int \<Rightarrow> js_number" where
  "js_times x k = (case x of NaN \<Rightarrow> NaN | Integer n \<Rightarrow> js_number_of (n * k) | Rounded \<Rightarrow> Rounded)"

text \<open>
  \<^verbatim>\<open>parseInt(s)\<close> without a radix: leading white space, an optional sign, an optional
  \<^verbatim>\<open>0x\<close> prefix that selects base 16, then the longest run of digits. The string is a
  header value, which Node decodes byte by byte (latin1), so a character is a code below
  256; the white space among those is tab, line feed, vertical tab, form feed, carriage
  return, space and the no-break space \<^verbatim>\<open>U+00A0\<close>.
\<close>

definition is_space :: "char \<Rightarrow> bool" where
  "is_space c \<longleftrightarrow> c \<in> set [CHR 0x09, CHR 0x0A, CHR 0x0B, CHR 0x0C, CHR 0x0D, CHR 0x20, CHR 0xA0]"

definition digit_value :: "char \<Rightarrow> nat option" where
  "digit_value c =
     (let n = (of_char c :: nat)
      in if 48 \<le> n \<and> n \<le> 57 then Some (n - 48)
         else if 97 \<le> n \<and> n \<le> 102 then Some (n - 87)
         else if 65 \<le> n \<and> n \<le> 70 then Some (n - 55)
         else None)"

definition is_digit :: "nat \<Rightarrow> char \<Rightarrow> bool" where
  "is_digit radix c = (case digit_value c of Some d \<Rightarrow> d < radix | None \<Rightarrow> False)"

definition parseInt :: "string \<Rightarrow> js_number" where
  "parseInt inputString =
     (let S = dropWhile is_space inputString;
          sign = (if S \<noteq> [] \<and> hd S = CHR ''-'' then - 1 else 1 :: int);
          S = (if S \<noteq> [] \<and> (hd S = CHR ''+'' \<or> hd S = CHR ''-'') then tl S else S);
          hex = (length S \<ge> 2 \<and> S ! 0 = CHR ''0'' \<and> (S ! 1 = CHR ''x'' \<or> S ! 1 = CHR ''X''));
          R = (if hex then 16 else 10);
          S = (if hex then drop 2 S else S);
          Z = takeWhile (is_digit R) S
      in if Z = [] then NaN
         else js_number_of (sign * int (foldl (\<lambda>acc c. acc * R + the (digit_value c)) 0 Z)))"


text \<open>
  What the upstream does on one attempt, as \<^verbatim>\<open>makeRequestWithRetry\<close> sees it: a response
  that arrives completely (status, the \<^verbatim>\<open>retry-after\<close> header, the body chunks), a failure
  before any response (connection error or connection timeout), a response that starts
  and then fails (the 60 s response timeout or the idle timeout fires, or the socket
  errors) after the given chunks have arrived, or a response that arrives completely with
  \<^verbatim>\<open>content-encoding: gzip\<close> and a body that \<^verbatim>\<open>zlib.gunzipSync\<close> rejects. Either failure
  rejects the promise of the attempt with the message.
\<close>

record upstream_response =
  statusCode :: int
  retry_after :: "string option"
  chunks :: "string list"

datatype upstream_attempt =
    Completes upstream_response
  | Fails_before string
  | Fails_during upstream_response string
  | Completes_corrupt upstream_response

text \<open>
  What the function does that can be observed: the attempts it makes, what it writes to
  the client response, and the delays it waits for (\<^verbatim>\<open>setTimeout\<close> with the given number
  of milliseconds, \<open>None\<close> for \<^verbatim>\<open>NaN\<close>).
\<close>

datatype event =
    Request nat
  | WriteHead int
  | Write string
  | End
  | SetTimeout "int option"

text \<open>
  The result object of an attempt, and how the call ends: it returns a result, returns
  nothing (the loop runs out), throws the last error (the rejection of an attempt, or a
  \<^verbatim>\<open>TypeError\<close> raised while logging), or an exception escapes from a callback of the
  response (\<^verbatim>\<open>clientRes.writeHead\<close> on a response whose head is already written,
  \<^verbatim>\<open>zlib.gunzipSync\<close> on a corrupt body). A run that would wait for a rounded number
  of milliseconds, or whose budget is above 1000 attempts (up to there the attempt counter
  and the doubled delay \<^verbatim>\<open>1000 * Math.pow(2, attempt)\<close> are exact), is not modelled.
\<close>

record request_result =
  result_status :: int
  result_retry_after :: "string option"
  responseData :: string
  streaming :: bool

datatype thrown = Error string | Type_error

datatype outcome = Returned request_result | Returned_undefined | Thrown thrown | Uncaught | Unmodelled

text \<open>
  The delay before retrying a 429:
  \<^verbatim>\<open>retryAfter ? parseInt(retryAfter) * 1000 : delays[attempt] || delays[delays.length - 1]\<close>.
\<close>

definition rate_limit_delay :: "string option \<Rightarrow> nat \<Rightarrow> js_number" where
  "rate_limit_delay retryAfter attempt =
     (let delays = [2000, 5000, 10000, 20000, 40000]
      in case retryAfter of
           Some h \<Rightarrow>
             if h \<noteq> [] then js_times (parseInt h) 1000
             else Integer (if attempt < length delays then delays ! attempt else delays ! (length delays - 1))
         | None \<Rightarrow> Integer (if attempt < length delays then delays ! attempt else delays ! (length delays - 1)))"

definition headersSent :: "event list \<Rightarrow> bool" where
  "headersSent log = list_ex (\<lambda>e. case e of WriteHead s \<Rightarrow> True | _ \<Rightarrow> False) log"

definition result_of :: "upstream_response \<Rightarrow> bool \<Rightarrow> request_result" where
  "result_of r s = \<lparr>result_status = statusCode r, result_retry_after = retry_after r,
                     responseData = concat (chunks r), streaming = s\<rparr>"

text \<open>
  Two statements of the non-streaming path read the request outside any inner \<^verbatim>\<open>try\<close>, so
  a \<^verbatim>\<open>TypeError\<close> in them lands in the \<^verbatim>\<open>catch\<close> of the attempt:
  \<^verbatim>\<open>requestData?.messages?.some(m => m.role === 'tool')\<close> after a 2xx response, and
  \<^verbatim>\<open>requestData.tools.forEach(tool => ... tool.function?.name ...)\<close> when a response with a
  status of 400 or more is about to be returned. \<open>requestData\<close> is \<open>JNull\<close> when the body
  did not parse.
\<close>

fun some_role_tool :: "json list \<Rightarrow> js_error + bool" where
  "some_role_tool [] = Inr False"
| "some_role_tool (m # ms) =
     (if m = JNull then Inl TypeError
      else if get_prop m ''role'' = Some (JStr ''tool'') then Inr True
      else some_role_tool ms)"

definition hasToolResults :: "json \<Rightarrow> js_error + bool" where
  "hasToolResults requestData =
     (case get_prop requestData ''messages'' of
        None \<Rightarrow> Inr False
      | Some JNull \<Rightarrow> Inr False
      | Some (JArr ms) \<Rightarrow> some_role_tool ms
      | Some _ \<Rightarrow> Inl TypeError)"

definition log_tools :: "json \<Rightarrow> js_error option" where
  "log_tools requestData =
     (case get_prop requestData ''tools'' of
        None \<Rightarrow> None
      | Some tools \<Rightarrow>
          if \<not> truthy tools then None
          else (case tools of
                  JArr ts \<Rightarrow> if JNull \<in> set ts then Some TypeError else None
                | _ \<Rightarrow> Some TypeError))"

text \<open>
  \<^verbatim>\<open>makeRequestWithRetry\<close> (lines 421 to 688) from attempt number \<open>attempt\<close> on, with the
  upstream as a function of the attempt number. Streaming mode is
  \<^verbatim>\<open>requestData?.stream === true\<close> (the one caller always passes \<^verbatim>\<open>clientRes\<close>); there the head
  and every chunk are written to the client as they arrive, and nothing is decompressed.
  Signature extraction and the remaining logging do not change what is returned and are
  left out.
\<close>

definition isStreaming :: "json \<Rightarrow> bool" where
  "isStreaming requestData \<longleftrightarrow> get_prop requestData ''stream'' = Some (JBool True)"

function makeRequestWithRetry_from ::
    "(nat \<Rightarrow> upstream_attempt) \<Rightarrow> json \<Rightarrow> nat \<Rightarrow> nat \<Rightarrow> event list \<Rightarrow> outcome \<times> event list" where
  "makeRequestWithRetry_from upstream requestData maxRetries attempt log =
     (if 1000 < maxRetries then (Unmodelled, log)
      else if \<not> attempt < maxRetries then (Returned_undefined, log)
      else
        (let log = log @ [Request attempt];
             on_error = (\<lambda>error log.
               if attempt = maxRetries - 1 then (Thrown error, log)
               else makeRequestWithRetry_from upstream requestData maxRetries (attempt + 1)
                      (log @ [SetTimeout (Some (1000 * 2 ^ attempt))]));
             on_result = (\<lambda>result log.
               if 200 \<le> result_status result \<and> result_status result < 300 \<and> \<not> streaming result
                  \<and> hasToolResults requestData = Inl TypeError
               then on_error Type_error log
               else if streaming result then (Returned result, log)
               else if result_status result = 429 \<and> attempt < maxRetries - 1
               then (case rate_limit_delay (result_retry_after result) attempt of
                       NaN \<Rightarrow>
                         makeRequestWithRetry_from upstream requestData maxRetries (attempt + 1)
                           (log @ [SetTimeout None])
                     | Integer delay \<Rightarrow>
                         makeRequestWithRetry_from upstream requestData maxRetries (attempt + 1)
                           (log @ [SetTimeout (Some delay)])
                     | Rounded \<Rightarrow> (Unmodelled, log))
               else if result_status result = 503 \<and> attempt < 3
               then makeRequestWithRetry_from upstream requestData maxRetries (attempt + 1)
                      (log @ [SetTimeout (Some (2 ^ attempt * 1000))])
               else if 400 \<le> result_status result \<and> log_tools requestData = Some TypeError
               then on_error Type_error log
               else (Returned result, log))
         in case upstream attempt of
              Fails_before message \<Rightarrow> on_error (Error message) log
            | Completes r \<Rightarrow>
                if isStreaming requestData
                then (if headersSent log then (Uncaught, log)
                      else on_result (result_of r True)
                             (log @ [WriteHead (statusCode r)] @ map Write (chunks r) @ [End]))
                else on_result (result_of r False) log
            | Completes_corrupt r \<Rightarrow>
                if isStreaming requestData
                then (if headersSent log then (Uncaught, log)
                      else on_result (result_of r True)
                             (log @ [WriteHead (statusCode r)] @ map Write (chunks r) @ [End]))
                else (Uncaught, log)
            | Fails_during r message \<Rightarrow>
                if isStreaming requestData
                then (if headersSent log then (Uncaught, log)
                      else on_error (Error message) (log @ [WriteHead (statusCode r)] @ map Write (chunks r)))
                else on_error (Error message) log))"
  by pat_completeness auto
termination
  by (relation "measure (\<lambda>(upstream, requestData, maxRetries, attempt, log). maxRetries - attempt)") auto

definition makeRequestWithRetry :: "(nat \<Rightarrow> upstream_attempt) \<Rightarrow> json \<Rightarrow> nat \<Rightarrow> outcome \<times> event list" where
  "makeRequestWithRetry upstream requestData maxRetries =
     makeRequestWithRetry_from upstream requestData maxRetries 0 []"

declare makeRequestWithRetry_from.simps [simp del]

subsection \<open>A decimal \<^verbatim>\<open>Retry-After\<close> value\<close>









subsection \<open>Retrying a rate-limited request\<close>










text \<open>
  Claim C5 does not hold of the code. In streaming mode a completed response is returned
  without a retry, but a failure after chunks were forwarded takes the \<^verbatim>\<open>catch\<close> path like
  any other error: here the first attempt forwards the head and one chunk, the response
  timeout fires, and four more attempts are made.
\<close>

theorem C5_retry_after_forwarding:
  "makeRequestWithRetry
     (\<lambda>n. if n = 0
          then Fails_during \<lparr>statusCode = 200, retry_after = None, chunks = [''data: a'']\<rparr>
                 ''Response timeout after 60s''
          else Fails_before ''ECONNRESET'')
     (JObj [(''model'', JStr ''gemini-3''), (''stream'', JBool True)]) 5
   = (Thrown (Error ''ECONNRESET''),
      [Request 0, WriteHead 200, Write ''data: a'', SetTimeout (Some 1000),
       Request 1, SetTimeout (Some 2000), Request 2, SetTimeout (Some 4000),
       Request 3, SetTimeout (Some 8000), Request 4])"
  by code_simp


end
